theory Spec2Isabelle
  imports Complex_Main
begin

section \<open>Data model (client/src/main.tsx)\<close>

text \<open>
  JavaScript numbers are IEEE 754 doubles. They are modelled as follows.

  \<^item> The two reservoir masses and the plated count only ever take the values
    \<open>ANODE_START_MASS - 5k\<close>, \<open>CATHODE_START_MASS + 5k\<close> and \<open>k\<close>, so they are integers.

  \<^item> Progress values are the doubles of the source, as reals: the loop variable of
    \<open>getProgressFromDrag\<close> is rounded to a double at each \<open>p += 0.01\<close>, and the literals
    \<open>0.01\<close> and \<open>0.95\<close> are the doubles nearest to them (\<open>toDouble\<close>). The number of
    samples of the loop and their values depend on this rounding.

  \<^item> Coordinates are reals; the rounding of the arithmetic on coordinates (the
    interpolation along a path, the distances, the margins of the bounds) is not
    modelled.

  \<open>Date.now()\<close> is a natural number read from the environment at each call.
\<close>

datatype ParticleType = Ion | AnodeElectron | CathodeElectron

datatype ElectronSegment = AnodeWire | CathodeWire

datatype Status = Active | Waiting | Plated

type_synonym point = "real \<times> real"

record Particle =
  pid :: string
  ptype :: ParticleType
  px :: real
  py :: real
  status :: Status
  segment :: "ElectronSegment option"
  progress :: "real option"

definition ANODE_START_MASS :: int where
  "ANODE_START_MASS = 50"

definition CATHODE_START_MASS :: int where
  "CATHODE_START_MASS = 25"

definition MASS_PER_UNIT :: int where
  "MASS_PER_UNIT = 5"

definition TOTAL_PLATING_GOAL :: int where
  "TOTAL_PLATING_GOAL = 6"

section \<open>Rounding to a double\<close>

text \<open>
  The integer nearest to \<open>x\<close>, a tie going to the even one.
\<close>

definition roundHalfEven :: "real \<Rightarrow> int" where
  "roundHalfEven x =
     (if x - of_int \<lfloor>x\<rfloor> < 1 / 2 then \<lfloor>x\<rfloor>
      else if x - of_int \<lfloor>x\<rfloor> > 1 / 2 then \<lfloor>x\<rfloor> + 1
      else if even \<lfloor>x\<rfloor> then \<lfloor>x\<rfloor>
      else \<lfloor>x\<rfloor> + 1)"

text \<open>
  The double nearest to \<open>x\<close>, a tie going to the even significand: \<open>x\<close> is scaled by
  the power of two that brings it into \<open>[2 ^ 52, 2 ^ 53)\<close>, rounded to an integer and
  scaled back. The exponent is not bounded (no overflow, no subnormal numbers): the
  numbers rounded here lie between \<open>0.01\<close> and \<open>1.01\<close>.
\<close>

definition toDouble :: "real \<Rightarrow> real" where
  "toDouble x =
     (if x = 0 then 0
      else of_int (roundHalfEven (x / 2 powr of_int (\<lfloor>log 2 \<bar>x\<bar>\<rfloor> - 52)))
           * 2 powr of_int (\<lfloor>log 2 \<bar>x\<bar>\<rfloor> - 52))"

section \<open>Path geometry\<close>

text \<open>
  \<open>points[i]\<close> of the source: \<open>undefined\<close> (here \<open>None\<close>) outside the array.
\<close>

definition index :: "'a list \<Rightarrow> int \<Rightarrow> 'a option" where
  "index xs i = (if 0 \<le> i \<and> i < int (length xs) then Some (xs ! nat i) else None)"

text \<open>
  \<open>getPointOnPath\<close>. The result \<open>None\<close> stands for \<open>undefined\<close> (the two early
  returns on an empty array) and for the TypeError of reading \<open>.x\<close> of \<open>undefined\<close>.
\<close>

definition getPointOnPath :: "point list \<Rightarrow> real \<Rightarrow> point option" where
  "getPointOnPath points prog =
     (if prog \<le> 0 then index points 0
      else if prog \<ge> 1 then index points (int (length points) - 1)
      else
        let totalSegments = int (length points) - 1;
            segmentProgress = prog * real_of_int totalSegments;
            segmentIndex = \<lfloor>segmentProgress\<rfloor>;
            localProgress = segmentProgress - real_of_int segmentIndex
        in (case index points (min segmentIndex (int (length points) - 1)) of
              None \<Rightarrow> None
            | Some startPoint \<Rightarrow>
                (case index points (min (segmentIndex + 1) (int (length points) - 1)) of
                   None \<Rightarrow> None
                 | Some endPoint \<Rightarrow>
                     Some (fst startPoint + (fst endPoint - fst startPoint) * localProgress,
                           snd startPoint + (snd endPoint - snd startPoint) * localProgress))))"

text \<open>
  \<open>dist < minDist\<close> where \<open>minDist\<close> starts as \<open>Infinity\<close> (here \<open>None\<close>).
\<close>

definition lessThanMin :: "real \<Rightarrow> real option \<Rightarrow> bool" where
  "lessThanMin d minDist = (case minDist of None \<Rightarrow> True | Some m \<Rightarrow> d < m)"

text \<open>
  The loop \<open>for (let p = 0; p <= 1; p += 0.01)\<close> of \<open>getProgressFromDrag\<close>, with its
  two loop variables \<open>minDist\<close> and \<open>bestProgress\<close>; \<open>p += 0.01\<close> adds the double
  \<open>0.01\<close> and rounds the sum. The result \<open>None\<close> stands for a call that returns no
  number: the TypeError of reading \<open>point.x\<close> of \<open>undefined\<close>, or a loop that does not
  end. \<open>scanPath_nearest\<close> and \<open>scanPath_empty\<close> below show that, started at \<open>p = 0\<close> as
  in the source, the loop ends with a number on every path that is not empty, and
  throws on the empty one.
\<close>

partial_function (option) scanPath ::
  "point list \<Rightarrow> real \<Rightarrow> real \<Rightarrow> real \<Rightarrow> real option \<Rightarrow> real \<Rightarrow> real option" where
  "scanPath points dragX dragY p minDist bestProgress =
     (if p \<le> 1 then
        (case getPointOnPath points p of
           None \<Rightarrow> None
         | Some pt \<Rightarrow>
             (if lessThanMin (sqrt ((fst pt - dragX)\<^sup>2 + (snd pt - dragY)\<^sup>2)) minDist
              then scanPath points dragX dragY (toDouble (p + toDouble 0.01))
                     (Some (sqrt ((fst pt - dragX)\<^sup>2 + (snd pt - dragY)\<^sup>2))) p
              else scanPath points dragX dragY (toDouble (p + toDouble 0.01)) minDist bestProgress))
      else Some bestProgress)"

definition getProgressFromDrag :: "point list \<Rightarrow> real \<Rightarrow> real \<Rightarrow> real \<Rightarrow> real option" where
  "getProgressFromDrag points dragX dragY currentProgress =
     (case scanPath points dragX dragY 0 None currentProgress of
        None \<Rightarrow> None
      | Some bestProgress \<Rightarrow> Some (max currentProgress bestProgress))"

section \<open>Simulation state\<close>

text \<open>
  The component's \<open>useState\<close> cells that the simulation rules read or write. The
  tutorial, language and flow-indicator cells are presentation only and are left out.
  The two wire paths are state too: \<open>calculateWirePoints\<close> sets them from the layout.
  \<open>draggingElectronId\<close> is the id of the electron under the pointer, or \<open>null\<close>.
\<close>

record GameState =
  anodeMass :: int
  cathodeMass :: int
  ions :: "Particle list"
  electrons :: "Particle list"
  platedCount :: int
  showSuccess :: bool
  isAnodeConnected :: bool
  isCathodeConnected :: bool
  anodeWirePoints :: "point list"
  cathodeWirePoints :: "point list"
  ionResetKey :: nat
  draggingElectronId :: "string option"

definition initialState :: GameState where
  "initialState =
     \<lparr>anodeMass = ANODE_START_MASS, cathodeMass = CATHODE_START_MASS, ions = [],
      electrons = [], platedCount = 0, showSuccess = False, isAnodeConnected = False,
      isCathodeConnected = False, anodeWirePoints = [], cathodeWirePoints = [],
      ionResetKey = 0, draggingElectronId = None\<rparr>"

text \<open>
  What a handler sends to the feedback collaborators: the sounds of
  \<open>useSoundEffects\<close> and the toasts, named by their title key. A handler returns the
  feedback it emitted, in order, and the next state.
\<close>

datatype Sound = PlaySuccess | PlayError | PlayPlating | PlayWin | PlayConnect | PlayPop

datatype ToastTitle =
  CircuitOpen | AnodeDepleted | TooManyParticles | StayInSolution | WaitForElectron
  | ElectronAtBattery | PlatingSuccessful | AnodeConnected | CathodeConnected

datatype Feedback = Sound Sound | Toast ToastTitle

text \<open>The template literal \<open>`${Date.now()}`\<close>: a natural number in decimal.\<close>

fun decimal :: "nat \<Rightarrow> string" where
  "decimal n =
     (if n < 10 then [''0123456789'' ! n]
      else decimal (n div 10) @ [''0123456789'' ! (n mod 10)])"

declare decimal.simps [simp del]

section \<open>Spawning\<close>

definition activeParticles :: "GameState \<Rightarrow> nat" where
  "activeParticles s =
     length (filter (\<lambda>i. status i = Active) (ions s))
     + length (filter (\<lambda>e. status e = Active) (electrons s))"

text \<open>
  The two particles that \<open>spawnIon\<close> builds, given its reading of \<open>Date.now()\<close> for
  each and the anode wire's path.
\<close>

definition newIon :: "nat \<Rightarrow> Particle" where
  "newIon now =
     \<lparr>pid = ''ion-'' @ decimal now, ptype = Ion, px = 0, py = 0, status = Active,
      segment = None, progress = None\<rparr>"

definition newAnodeElectron :: "nat \<Rightarrow> point list \<Rightarrow> Particle" where
  "newAnodeElectron now anodePts =
     (let startPoint = (if length anodePts > 0 then anodePts ! 0 else (0, 0))
      in \<lparr>pid = ''ae-'' @ decimal now, ptype = AnodeElectron, px = fst startPoint,
          py = snd startPoint, status = Active, segment = Some AnodeWire,
          progress = Some 0\<rparr>)"

text \<open>\<open>spawnIon\<close>; \<open>now1\<close> and \<open>now2\<close> are its two readings of \<open>Date.now()\<close>.\<close>

definition spawnIon :: "nat \<Rightarrow> nat \<Rightarrow> GameState \<Rightarrow> Feedback list \<times> GameState" where
  "spawnIon now1 now2 s =
     (if \<not> isAnodeConnected s \<or> \<not> isCathodeConnected s then
        ([Sound PlayError, Toast CircuitOpen], s)
      else if anodeMass s \<le> 10 then
        ([Sound PlayError, Toast AnodeDepleted], s)
      else if activeParticles s \<ge> 5 then
        ([Sound PlayError, Toast TooManyParticles], s)
      else
        ([Sound PlayPop],
         s\<lparr>ions := ions s @ [newIon now1],
           electrons := electrons s @ [newAnodeElectron now2 (anodeWirePoints s)],
           anodeMass := anodeMass s - MASS_PER_UNIT\<rparr>))"

section \<open>Dropping an ion\<close>

text \<open>A \<open>getBoundingClientRect()\<close> result; \<open>None\<close> when the ref is not mounted.\<close>

record Rect =
  rleft :: real
  rright :: real
  rtop :: real
  rbottom :: real

definition getElectrolyteBounds :: "Rect option \<Rightarrow> Rect option" where
  "getElectrolyteBounds beaker =
     (case beaker of
        None \<Rightarrow> None
      | Some b \<Rightarrow> Some \<lparr>rleft = rleft b + 20, rright = rright b - 20,
                         rtop = rtop b + 60, rbottom = rbottom b - 20\<rparr>)"

definition outsideBounds :: "Rect option \<Rightarrow> point \<Rightarrow> bool" where
  "outsideBounds bounds dropPoint =
     (case bounds of
        None \<Rightarrow> False
      | Some b \<Rightarrow> fst dropPoint < rleft b \<or> fst dropPoint > rright b
                  \<or> snd dropPoint < rtop b \<or> snd dropPoint > rbottom b)"

definition insideRect :: "Rect option \<Rightarrow> point \<Rightarrow> bool" where
  "insideRect rect dropPoint =
     (case rect of
        None \<Rightarrow> False
      | Some r \<Rightarrow> fst dropPoint \<ge> rleft r \<and> fst dropPoint \<le> rright r
                  \<and> snd dropPoint \<ge> rtop r \<and> snd dropPoint \<le> rbottom r)"

definition hasWaitingElectron :: "GameState \<Rightarrow> bool" where
  "hasWaitingElectron s = list_ex (\<lambda>e. status e = Waiting) (electrons s)"

text \<open>
  \<open>handleIonDragEnd(id, info)\<close>, given the two rectangles it reads from the layout
  (the cathode's and the beaker's) and \<open>info.point\<close>.
\<close>

definition handleIonDragEnd ::
  "Rect option \<Rightarrow> Rect option \<Rightarrow> string \<Rightarrow> point \<Rightarrow> GameState \<Rightarrow> Feedback list \<times> GameState" where
  "handleIonDragEnd cathodeRect beaker i dropPoint s =
     (if outsideBounds (getElectrolyteBounds beaker) dropPoint then
        ([Sound PlayError, Toast StayInSolution], s\<lparr>ionResetKey := ionResetKey s + 1\<rparr>)
      else if insideRect cathodeRect dropPoint \<and> hasWaitingElectron s then
        ([Sound PlaySuccess],
         s\<lparr>ions := map (\<lambda>p. if pid p = i then p\<lparr>status := Waiting\<rparr> else p) (ions s)\<rparr>)
      else if insideRect cathodeRect dropPoint \<and> \<not> hasWaitingElectron s then
        ([Sound PlayError, Toast WaitForElectron], s)
      else ([], s))"

section \<open>Dragging an electron\<close>

text \<open>\<open>electron.progress || 0\<close>: a missing progress counts as 0.\<close>

definition progressOr0 :: "Particle \<Rightarrow> real" where
  "progressOr0 e = (case progress e of None \<Rightarrow> 0 | Some p \<Rightarrow> p)"

text \<open>
  The callback that \<open>handleElectronDrag\<close> maps over the electrons. The two \<open>None\<close>
  branches stand for a TypeError; \<open>getProgressFromDrag_nonempty\<close> and
  \<open>getPointOnPath_nonempty\<close> below show that they are never taken, since the path is
  not empty there.
\<close>

definition dragElectron ::
  "point list \<Rightarrow> point list \<Rightarrow> string \<Rightarrow> real \<Rightarrow> real \<Rightarrow> Particle \<Rightarrow> Particle" where
  "dragElectron anodePts cathodePts i svgX svgY electron =
     (if pid electron \<noteq> i then electron
      else
        let points = (if segment electron = Some AnodeWire then anodePts else cathodePts)
        in if length points = 0 then electron
           else (case getProgressFromDrag points svgX svgY (progressOr0 electron) of
                   None \<Rightarrow> electron
                 | Some newProgress \<Rightarrow>
                     (case getPointOnPath points newProgress of
                        None \<Rightarrow> electron
                      | Some newPos \<Rightarrow>
                          electron\<lparr>px := fst newPos, py := snd newPos,
                                   progress := Some newProgress\<rparr>)))"

text \<open>
  \<open>handleElectronDrag(id, info)\<close>. The argument is the pointer position mapped to
  the SVG's coordinates (\<open>svgX\<close>, \<open>svgY\<close>), or \<open>None\<close> when the SVG is not mounted.
  The component of \<open>main.tsx\<close> defines this callback and does not call it: its SVG
  updates a dragged electron in its own pointer handlers, which follow. The callback
  is kept here as a function of its own (\<open>dragCalls\<close> below runs a sequence of calls).
\<close>

definition handleElectronDrag ::
  "string \<Rightarrow> point option \<Rightarrow> GameState \<Rightarrow> Feedback list \<times> GameState" where
  "handleElectronDrag i svgPoint s =
     (case svgPoint of
        None \<Rightarrow> ([], s)
      | Some pt \<Rightarrow>
          ([], s\<lparr>electrons :=
                   map (dragElectron (anodeWirePoints s) (cathodeWirePoints s) i (fst pt) (snd pt))
                     (electrons s)\<rparr>))"

text \<open>
  \<open>onMouseDown\<close> and \<open>onTouchStart\<close> of an electron's element. The SVG renders an
  element for every electron whose status is \<open>active\<close>, so the event takes place only
  for the id of such an electron.
\<close>

definition handleElectronPointerDown :: "string \<Rightarrow> GameState \<Rightarrow> Feedback list \<times> GameState" where
  "handleElectronPointerDown i s =
     (if list_ex (\<lambda>e. pid e = i \<and> status e = Active) (electrons s)
      then ([], s\<lparr>draggingElectronId := Some i\<rparr>)
      else ([], s))"

text \<open>
  \<open>onMouseMove\<close> and \<open>onTouchMove\<close> of the SVG, given the pointer position mapped to
  the SVG's coordinates. The handler looks the dragged electron up in the rendered
  list, computes the new progress and position from it, and writes them to every
  electron that has its id.
\<close>

definition handleSvgPointerMove :: "point \<Rightarrow> GameState \<Rightarrow> Feedback list \<times> GameState" where
  "handleSvgPointerMove svgPoint s =
     (case draggingElectronId s of
        None \<Rightarrow> ([], s)
      | Some i \<Rightarrow>
          (case find (\<lambda>el. pid el = i) (electrons s) of
             None \<Rightarrow> ([], s)
           | Some electron \<Rightarrow>
               let points = (if segment electron = Some AnodeWire then anodeWirePoints s
                             else cathodeWirePoints s)
               in if length points > 0 then
                    (case getProgressFromDrag points (fst svgPoint) (snd svgPoint)
                            (progressOr0 electron) of
                       None \<Rightarrow> ([], s)
                     | Some newProgress \<Rightarrow>
                         (case getPointOnPath points newProgress of
                            None \<Rightarrow> ([], s)
                          | Some newPos \<Rightarrow>
                              ([], s\<lparr>electrons :=
                                       map (\<lambda>el. if pid el = i
                                                 then el\<lparr>px := fst newPos, py := snd newPos,
                                                         progress := Some newProgress\<rparr>
                                                 else el)
                                         (electrons s)\<rparr>)))
                  else ([], s)))"

text \<open>
  The electron that the hand-off builds, given its reading of \<open>Date.now()\<close> and the
  cathode wire's path.
\<close>

definition newCathodeElectron :: "nat \<Rightarrow> point list \<Rightarrow> Particle" where
  "newCathodeElectron now cathodePts =
     (let startPoint = (if length cathodePts > 0 then cathodePts ! 0 else (0, 0))
      in \<lparr>pid = ''ce-'' @ decimal now, ptype = CathodeElectron, px = fst startPoint,
          py = snd startPoint, status = Active, segment = Some CathodeWire,
          progress = Some 0\<rparr>)"

text \<open>\<open>handleElectronDragEnd(id)\<close>; \<open>now\<close> is its reading of \<open>Date.now()\<close>.\<close>

definition handleElectronDragEnd ::
  "string \<Rightarrow> nat \<Rightarrow> GameState \<Rightarrow> Feedback list \<times> GameState" where
  "handleElectronDragEnd i now s =
     (case find (\<lambda>e. pid e = i) (electrons s) of
        None \<Rightarrow> ([], s)
      | Some electron \<Rightarrow>
          if segment electron = Some AnodeWire \<and> progressOr0 electron \<ge> toDouble 0.95 then
            ([Sound PlaySuccess, Toast ElectronAtBattery],
             s\<lparr>electrons :=
                 filter (\<lambda>e. pid e \<noteq> i) (electrons s)
                 @ [newCathodeElectron now (cathodeWirePoints s)]\<rparr>)
          else if segment electron = Some CathodeWire \<and> progressOr0 electron \<ge> toDouble 0.95 then
            ([Sound PlaySuccess],
             s\<lparr>electrons :=
                 map (\<lambda>e. if pid e = i then e\<lparr>status := Waiting, progress := Some 1\<rparr> else e)
                   (electrons s)\<rparr>)
          else ([], s))"

text \<open>
  \<open>onMouseUp\<close> and \<open>onTouchEnd\<close> of the SVG: the dragged electron is released and
  the drag ends. \<open>onMouseLeave\<close> ends the drag without a release.
\<close>

definition handleSvgPointerUp :: "nat \<Rightarrow> GameState \<Rightarrow> Feedback list \<times> GameState" where
  "handleSvgPointerUp now s =
     (case draggingElectronId s of
        None \<Rightarrow> ([], s)
      | Some i \<Rightarrow>
          (fst (handleElectronDragEnd i now s),
           (snd (handleElectronDragEnd i now s))\<lparr>draggingElectronId := None\<rparr>))"

definition handleSvgMouseLeave :: "GameState \<Rightarrow> Feedback list \<times> GameState" where
  "handleSvgMouseLeave s =
     (case draggingElectronId s of
        None \<Rightarrow> ([], s)
      | Some i \<Rightarrow> ([], s\<lparr>draggingElectronId := None\<rparr>))"

section \<open>Pairing\<close>

definition waitingIons :: "GameState \<Rightarrow> Particle list" where
  "waitingIons s = filter (\<lambda>i. status i = Waiting) (ions s)"

definition waitingElectrons :: "GameState \<Rightarrow> Particle list" where
  "waitingElectrons s = filter (\<lambda>e. status e = Waiting) (electrons s)"

definition pairs :: "GameState \<Rightarrow> nat" where
  "pairs s = min (length (waitingIons s)) (length (waitingElectrons s))"

text \<open>
  The effect that runs after every render. Its state updates are batched into one
  render, so it is one transition. The ``complete'' signal is what the
  \<open>setPlatedCount\<close> callback does when the new count reaches the goal: it schedules
  \<open>playWin\<close> and sets \<open>showSuccess\<close>.
\<close>

definition pairingEffect :: "GameState \<Rightarrow> Feedback list \<times> GameState" where
  "pairingEffect s =
     (if length (waitingIons s) > 0 \<and> length (waitingElectrons s) > 0 then
        if pairs s > 0 then
          let usedIonIds = map pid (take (pairs s) (waitingIons s));
              usedElectronIds = map pid (take (pairs s) (waitingElectrons s));
              newCount = platedCount s + int (pairs s)
          in ([Sound PlayPlating, Toast PlatingSuccessful]
                @ (if newCount \<ge> TOTAL_PLATING_GOAL then [Sound PlayWin] else []),
              s\<lparr>ions := filter (\<lambda>p. pid p \<notin> set usedIonIds) (ions s),
                electrons := filter (\<lambda>p. pid p \<notin> set usedElectronIds) (electrons s),
                cathodeMass := cathodeMass s + MASS_PER_UNIT * int (pairs s),
                platedCount := newCount,
                showSuccess := (if newCount \<ge> TOTAL_PLATING_GOAL then True else showSuccess s)\<rparr>)
        else ([], s)
      else ([], s))"

section \<open>Restart, connections and the event loop\<close>

definition resetGame :: "GameState \<Rightarrow> Feedback list \<times> GameState" where
  "resetGame s =
     ([], s\<lparr>anodeMass := ANODE_START_MASS, cathodeMass := CATHODE_START_MASS, ions := [],
            electrons := [], platedCount := 0, showSuccess := False,
            isAnodeConnected := False, isCathodeConnected := False\<rparr>)"

text \<open>
  The input events of the component: a wire handle dropped on its electrode, a click
  on the anode, the end of an ion's drag, the pointer events of the SVG and of its
  electrons, the restart button, the success dialog's \<open>onOpenChange\<close>, and a
  recomputation of the wire paths.
\<close>

datatype Event =
  ConnectAnode
  | ConnectCathode
  | SpawnIon nat nat
  | IonDragEnd "Rect option" "Rect option" string point
  | ElectronPointerDown string
  | SvgPointerMove point
  | SvgPointerUp nat
  | SvgMouseLeave
  | ResetGame
  | SuccessOpenChange bool
  | WirePoints "point list" "point list"

fun handle :: "Event \<Rightarrow> GameState \<Rightarrow> Feedback list \<times> GameState" where
  "handle ConnectAnode s =
     ([Sound PlayConnect, Toast AnodeConnected], s\<lparr>isAnodeConnected := True\<rparr>)"
| "handle ConnectCathode s =
     ([Sound PlayConnect, Toast CathodeConnected], s\<lparr>isCathodeConnected := True\<rparr>)"
| "handle (SpawnIon now1 now2) s = spawnIon now1 now2 s"
| "handle (IonDragEnd cathodeRect beaker i dropPoint) s =
     handleIonDragEnd cathodeRect beaker i dropPoint s"
| "handle (ElectronPointerDown i) s = handleElectronPointerDown i s"
| "handle (SvgPointerMove svgPoint) s = handleSvgPointerMove svgPoint s"
| "handle (SvgPointerUp now) s = handleSvgPointerUp now s"
| "handle SvgMouseLeave s = handleSvgMouseLeave s"
| "handle ResetGame s = resetGame s"
| "handle (SuccessOpenChange b) s = ([], s\<lparr>showSuccess := b\<rparr>)"
| "handle (WirePoints a c) s = ([], s\<lparr>anodeWirePoints := a, cathodeWirePoints := c\<rparr>)"

text \<open>
  One event: its handler, the render, and the pairing effect on the rendered state.
  (The effect runs again after its own update; \<open>pairingEffect_stable\<close> shows that this
  second run changes nothing.)
\<close>

definition step :: "Event \<Rightarrow> GameState \<Rightarrow> Feedback list \<times> GameState" where
  "step ev s =
     (let (out1, s1) = handle ev s; (out2, s2) = pairingEffect s1 in (out1 @ out2, s2))"

fun run :: "Event list \<Rightarrow> GameState \<Rightarrow> Feedback list \<times> GameState" where
  "run [] s = ([], s)"
| "run (ev # evs) s =
     (let (out1, s1) = step ev s; (out2, s2) = run evs s1 in (out1 @ out2, s2))"

definition exec :: "Event list \<Rightarrow> GameState" where
  "exec evs = snd (run evs initialState)"

definition feedbackOf :: "Event list \<Rightarrow> Feedback list" where
  "feedbackOf evs = fst (run evs initialState)"

section \<open>Drag updates\<close>

text \<open>
  The events of a drag that is not released: an electron is pressed, the pointer
  moves, the pointer leaves the SVG; the wire paths may be recomputed in between (a
  resize).
\<close>

fun isDragUpdate :: "Event \<Rightarrow> bool" where
  "isDragUpdate (ElectronPointerDown i) = True"
| "isDragUpdate (SvgPointerMove svgPoint) = True"
| "isDragUpdate SvgMouseLeave = True"
| "isDragUpdate (WirePoints a c) = True"
| "isDragUpdate ev = False"

text \<open>A sequence of calls of \<open>handleElectronDrag\<close>, each with its id and position.\<close>

fun dragCalls :: "(string \<times> point option) list \<Rightarrow> GameState \<Rightarrow> GameState" where
  "dragCalls [] s = s"
| "dragCalls (c # cs) s = dragCalls cs (snd (handleElectronDrag (fst c) (snd c) s))"

text \<open>
  What a drag update may do to one electron: it keeps its identity, its status and its
  segment, and its progress does not decrease.
\<close>

definition advanced :: "Particle \<Rightarrow> Particle \<Rightarrow> bool" where
  "advanced e e' =
     (pid e' = pid e \<and> status e' = status e \<and> segment e' = segment e
      \<and> progressOr0 e \<le> progressOr0 e')"

text \<open>
  The distance that \<open>getProgressFromDrag\<close> computes for the sample \<open>q\<close>: from the
  point of the path at \<open>q\<close> to the drag position.
\<close>

definition distTo :: "point list \<Rightarrow> real \<Rightarrow> real \<Rightarrow> real \<Rightarrow> real" where
  "distTo points dragX dragY q =
     (case getPointOnPath points q of
        None \<Rightarrow> 0
      | Some pt \<Rightarrow> sqrt ((fst pt - dragX)\<^sup>2 + (snd pt - dragY)\<^sup>2))"

section \<open>The samples of the loop\<close>

text \<open>
  The values that the loop variable takes from \<open>p\<close> on, at most \<open>n\<close> of them, and the
  values it takes from 0 on: there are 100 of them (\<open>length_samples\<close>), so 101 is
  enough. \<open>sampleNumerators\<close> lists them as multiples of \<open>1 / 2 ^ 59\<close> (\<open>samples_eq\<close>); the
  last one is \<open>lastSample\<close>, in decimal 0.9900000000000007, and the loop ends on
  1.0000000000000007.
\<close>

fun samplesFrom :: "nat \<Rightarrow> real \<Rightarrow> real list" where
  "samplesFrom 0 p = []"
| "samplesFrom (Suc n) p =
     (if p \<le> 1 then p # samplesFrom n (toDouble (p + toDouble 0.01)) else [])"

definition samples :: "real list" where
  "samples = samplesFrom 101 0"

definition sampleNumerators :: "int list" where
  "sampleNumerators =
     [0, 5764607523034235, 11529215046068470, 17293822569102704,
      23058430092136940, 28823037615171176, 34587645138205412, 40352252661239648,
      46116860184273880, 51881467707308112, 57646075230342344, 63410682753376576,
      69175290276410808, 74939897799445040, 80704505322479280, 86469112845513520,
      92233720368547760, 97998327891582000, 103762935414616240, 109527542937650480,
      115292150460684720, 121056757983718960, 126821365506753200, 132585973029787440,
      138350580552821680, 144115188075855904, 149879795598890144, 155644403121924384,
      161409010644958624, 167173618167992864, 172938225691027104, 178702833214061344,
      184467440737095584, 190232048260129824, 195996655783164064, 201761263306198304,
      207525870829232544, 213290478352266784, 219055085875301024, 224819693398335264,
      230584300921369504, 236348908444403744, 242113515967437984, 247878123490472224,
      253642731013506464, 259407338536540704, 265171946059574944, 270936553582609184,
      276701161105643424, 282465768628677664, 288230376151711872, 293994983674746112,
      299759591197780352, 305524198720814592, 311288806243848832, 317053413766883072,
      322818021289917312, 328582628812951552, 334347236335985792, 340111843859020032,
      345876451382054272, 351641058905088512, 357405666428122752, 363170273951156992,
      368934881474191232, 374699488997225472, 380464096520259712, 386228704043293952,
      391993311566328192, 397757919089362432, 403522526612396672, 409287134135430912,
      415051741658465152, 420816349181499392, 426580956704533632, 432345564227567872,
      438110171750602112, 443874779273636352, 449639386796670592, 455403994319704832,
      461168601842739072, 466933209365773312, 472697816888807552, 478462424411841792,
      484227031934876032, 489991639457910272, 495756246980944512, 501520854503978752,
      507285462027012992, 513050069550047232, 518814677073081472, 524579284596115712,
      530343892119149952, 536108499642184192, 541873107165218432, 547637714688252672,
      553402322211286912, 559166929734321152, 564931537257355392, 570696144780389632]"

definition lastSample :: real where
  "lastSample = 2229281815548397 / 2251799813685248"

text \<open>
  The body of the loop run over a list of samples (\<open>scanPath_samples\<close>: the loop is
  \<open>scanList\<close> over \<open>samples\<close>), and the same on squared distances, which is what the
  scenarios are evaluated with (\<open>scanList_scanSq\<close>).
\<close>

fun scanList ::
  "point list \<Rightarrow> real \<Rightarrow> real \<Rightarrow> real list \<Rightarrow> real option \<Rightarrow> real \<Rightarrow> real option" where
  "scanList points dragX dragY [] minDist bestProgress = Some bestProgress"
| "scanList points dragX dragY (p # ps) minDist bestProgress =
     (case getPointOnPath points p of
        None \<Rightarrow> None
      | Some pt \<Rightarrow>
          (if lessThanMin (sqrt ((fst pt - dragX)\<^sup>2 + (snd pt - dragY)\<^sup>2)) minDist
           then scanList points dragX dragY ps
                  (Some (sqrt ((fst pt - dragX)\<^sup>2 + (snd pt - dragY)\<^sup>2))) p
           else scanList points dragX dragY ps minDist bestProgress))"

fun scanSq ::
  "point list \<Rightarrow> real \<Rightarrow> real \<Rightarrow> real list \<Rightarrow> real option \<Rightarrow> real \<Rightarrow> real option" where
  "scanSq points dragX dragY [] minSq bestProgress = Some bestProgress"
| "scanSq points dragX dragY (p # ps) minSq bestProgress =
     (case getPointOnPath points p of
        None \<Rightarrow> None
      | Some pt \<Rightarrow>
          (if lessThanMin ((fst pt - dragX)\<^sup>2 + (snd pt - dragY)\<^sup>2) minSq
           then scanSq points dragX dragY ps
                  (Some ((fst pt - dragX)\<^sup>2 + (snd pt - dragY)\<^sup>2)) p
           else scanSq points dragX dragY ps minSq bestProgress))"

section \<open>A concrete layout and scenario\<close>

text \<open>
  A layout to run the simulation on: two three-point wire paths as
  \<open>calculateWirePoints\<close> builds them, the beaker's rectangle and the cathode's.
  A drag to the far end of a wire stops at the last sample: \<open>anodeStop\<close> and
  \<open>cathodeStop\<close> are the points of the two paths there.
\<close>

definition anodePath :: "point list" where
  "anodePath = [(100, 300), (100, 50), (400, 50)]"

definition cathodePath :: "point list" where
  "cathodePath = [(600, 50), (900, 50), (900, 300)]"

definition anodeStop :: point where
  "anodeStop = (110901140823998575 / 281474976710656, 50)"

definition cathodeStop :: point where
  "cathodeStop = (900, 166070236259287225 / 562949953421312)"

definition beakerRect :: Rect where
  "beakerRect = \<lparr>rleft = 200, rright = 872, rtop = 200, rbottom = 520\<rparr>"

definition cathodeRect :: Rect where
  "cathodeRect = \<lparr>rleft = 728, rright = 808, rtop = 224, rbottom = 520\<rparr>"

definition prepare :: "Event list" where
  "prepare = [ConnectAnode, ConnectCathode, WirePoints anodePath cathodePath]"

text \<open>
  One plating cycle, all of its clock readings being \<open>t\<close>: spawn, drag the electron to
  the end of the anode wire and release it, drag the new electron to the end of the
  cathode wire and release it, drop the ion on the cathode.
\<close>

definition cycle :: "nat \<Rightarrow> Event list" where
  "cycle t =
     [SpawnIon t t,
      ElectronPointerDown (''ae-'' @ decimal t),
      SvgPointerMove (400, 50),
      SvgPointerUp t,
      ElectronPointerDown (''ce-'' @ decimal t),
      SvgPointerMove (900, 300),
      SvgPointerUp t,
      IonDragEnd (Some cathodeRect) (Some beakerRect) (''ion-'' @ decimal t) (768, 300)]"

fun cycles :: "nat \<Rightarrow> Event list" where
  "cycles 0 = []"
| "cycles (Suc k) = cycles k @ cycle (Suc k)"

text \<open>
  The states along the first plating cycle on this layout: after the spawn, after the
  drag along the anode wire, after the drag along the cathode wire, and after the
  release at its end.
\<close>

definition afterSpawn :: GameState where
  "afterSpawn = exec (prepare @ take 1 (cycle 1))"

definition afterAnodeDrag :: GameState where
  "afterAnodeDrag = exec (prepare @ take 3 (cycle 1))"

definition afterCathodeDrag :: GameState where
  "afterCathodeDrag = exec (prepare @ take 6 (cycle 1))"

definition afterArrival :: GameState where
  "afterArrival = exec (prepare @ take 7 (cycle 1))"

text \<open>
  The state after \<open>k\<close> complete plating cycles on this layout, and the feedback of the
  cycle that follows them.
\<close>

definition stateAfter :: "nat \<Rightarrow> GameState" where
  "stateAfter k =
     \<lparr>anodeMass = 50 - 5 * int k, cathodeMass = 25 + 5 * int k, ions = [], electrons = [],
      platedCount = int k, showSuccess = (6 \<le> k), isAnodeConnected = True,
      isCathodeConnected = True, anodeWirePoints = anodePath, cathodeWirePoints = cathodePath,
      ionResetKey = 0, draggingElectronId = None\<rparr>"

definition cycleFeedback :: "nat \<Rightarrow> Feedback list" where
  "cycleFeedback k =
     [Sound PlayPop, Sound PlaySuccess, Toast ElectronAtBattery, Sound PlaySuccess,
      Sound PlaySuccess, Sound PlayPlating, Toast PlatingSuccessful]
     @ (if 5 \<le> k then [Sound PlayWin] else [])"

section \<open>Invariants of the reachable states\<close>

text \<open>
  The connections are latches that only \<open>resetGame\<close> clears, together with the
  masses: once the anode has lost mass, the circuit is complete.
\<close>

definition circuitInv :: "GameState \<Rightarrow> bool" where
  "circuitInv s =
     (anodeMass s = ANODE_START_MASS \<or> (isAnodeConnected s \<and> isCathodeConnected s))"

text \<open>
  An electron on the anode wire was made by \<open>spawnIon\<close> and is active; an electron on
  the cathode wire was made by the hand-off.
\<close>

definition electronInv :: "Particle \<Rightarrow> bool" where
  "electronInv e =
     ((segment e = Some AnodeWire \<and> take 3 (pid e) = ''ae-'' \<and> status e = Active)
      \<or> (segment e = Some CathodeWire \<and> take 3 (pid e) = ''ce-''))"

definition wellFormed :: "GameState \<Rightarrow> bool" where
  "wellFormed s =
     (circuitInv s \<and> list_all electronInv (electrons s) \<and> activeParticles s \<le> 6)"

text \<open>
  Ids may be shared (two hand-offs that read the same clock value). Of two electrons
  with one id, the one that entered the registry first has the greater progress, or the
  same: the later one started at 0, and every update since wrote one progress to both.
\<close>

definition dominates :: "Particle \<Rightarrow> Particle \<Rightarrow> bool" where
  "dominates e e' = (pid e' \<noteq> pid e \<or> progressOr0 e' \<le> progressOr0 e)"

definition progressInv :: "GameState \<Rightarrow> bool" where
  "progressInv s =
     (list_all (\<lambda>e. 0 \<le> progressOr0 e) (electrons s) \<and> sorted_wrt dominates (electrons s))"

section \<open>Pairing as the specification words it\<close>

text \<open>
  The registry without its first \<open>n\<close> waiting particles, in list order: what the
  specification says a batch of \<open>n\<close> pairs removes from each list. The source removes
  by id instead (\<open>pairingEffect\<close>); \<open>filter_used_exact\<close> compares the two.
\<close>

fun removeFirstWaiting :: "nat \<Rightarrow> Particle list \<Rightarrow> Particle list" where
  "removeFirstWaiting 0 xs = xs"
| "removeFirstWaiting (Suc n) [] = []"
| "removeFirstWaiting (Suc n) (x # xs) =
     (if status x = Waiting then removeFirstWaiting n xs
      else x # removeFirstWaiting (Suc n) xs)"

section \<open>Mass balance and fresh ids\<close>

text \<open>
  The balance of the ledger against the ions in the registry, and the runs in which
  every spawn gives its ion an id that no ion in the registry has.
\<close>

definition massBalance :: "GameState \<Rightarrow> bool" where
  "massBalance s =
     (anodeMass s + cathodeMass s + MASS_PER_UNIT * int (length (ions s))
        = ANODE_START_MASS + CATHODE_START_MASS)"

definition freshSpawn :: "Event \<Rightarrow> GameState \<Rightarrow> bool" where
  "freshSpawn ev s =
     (case ev of
        SpawnIon now1 now2 \<Rightarrow> pid (newIon now1) \<notin> set (map pid (ions s))
      | _ \<Rightarrow> True)"

fun freshRun :: "Event list \<Rightarrow> GameState \<Rightarrow> bool" where
  "freshRun [] s = True"
| "freshRun (ev # evs) s = (freshSpawn ev s \<and> freshRun evs (snd (step ev s)))"

section \<open>Further scenarios\<close>

text \<open>
  Two spawns that read the same clock value for their ions, one electron brought to
  the cathode, and the drop of ``the'' ion \<open>ion-1\<close> on the cathode.
\<close>

definition collision :: "Event list" where
  "collision =
     prepare @
     [SpawnIon 1 1, SpawnIon 1 2,
      ElectronPointerDown ''ae-1'', SvgPointerMove (400, 50), SvgPointerUp 3,
      ElectronPointerDown ''ce-3'', SvgPointerMove (900, 300), SvgPointerUp 4]"

definition dropIon1 :: Event where
  "dropIon1 = IonDragEnd (Some cathodeRect) (Some beakerRect) ''ion-1'' (768, 300)"

text \<open>
  The state of cycle \<open>t\<close> after \<open>k\<close> complete cycles, when its electron waits and its
  ion has just been dropped on the cathode: what the pairing effect then finds.
\<close>

definition arrived :: "nat \<Rightarrow> nat \<Rightarrow> GameState" where
  "arrived k t =
     snd (handle (IonDragEnd (Some cathodeRect) (Some beakerRect) (''ion-'' @ decimal t) (768, 300))
            (snd (run (take 7 (cycle t)) (stateAfter k))))"

text \<open>
  Six cycles reach the plating goal; the success dialog is closed; a seventh cycle
  follows (the anode still has mass for two more spawns).
\<close>

definition goalReached :: "Event list" where
  "goalReached = prepare @ cycles 6"

definition dialogClosed :: "Event list" where
  "dialogClosed = goalReached @ [SuccessOpenChange False]"

definition seventhPlated :: "Event list" where
  "seventhPlated = dialogClosed @ cycle 7"

text \<open>
  Two hand-offs that read the same clock value 5, so that two electrons on the
  cathode wire have the id \<open>ce-5\<close>. In \<open>waitingTwin\<close> the first of them was brought to
  the end of the wire and released before the second hand-off: it waits at the
  cathode, and the second is active at progress 0. In \<open>activeTwin\<close> the first was
  brought to the end of the wire and not released (the pointer left the SVG): both are
  active, the first at the last sample and the second at progress 0. \<open>pressAndRelease\<close>
  is a press on an electron with the id \<open>ce-5\<close> and a release with no move in between.
\<close>

definition waitingTwin :: "Event list" where
  "waitingTwin =
     prepare @
     [SpawnIon 1 1,
      ElectronPointerDown ''ae-1'', SvgPointerMove (400, 50), SvgPointerUp 5,
      ElectronPointerDown ''ce-5'', SvgPointerMove (900, 300), SvgPointerUp 6,
      SpawnIon 2 2,
      ElectronPointerDown ''ae-2'', SvgPointerMove (400, 50), SvgPointerUp 5]"

definition activeTwin :: "Event list" where
  "activeTwin =
     prepare @
     [SpawnIon 1 1,
      ElectronPointerDown ''ae-1'', SvgPointerMove (400, 50), SvgPointerUp 5,
      ElectronPointerDown ''ce-5'', SvgPointerMove (900, 300), SvgMouseLeave,
      SpawnIon 2 2,
      ElectronPointerDown ''ae-2'', SvgPointerMove (400, 50), SvgPointerUp 5]"

definition pressAndRelease :: "Event list" where
  "pressAndRelease = [ElectronPointerDown ''ce-5'', SvgPointerUp 7]"

text \<open>What the claims about electrons speak of: id, status, segment and progress.\<close>

definition summary :: "Particle \<Rightarrow> string \<times> Status \<times> ElectronSegment option \<times> real option" where
  "summary e = (pid e, status e, segment e, progress e)"

text \<open>
  A drag that goes to the far end of the anode wire and back to its start, with a
  recomputation of the paths in between: as the pointer events of the SVG, from the
  state in which the electron \<open>ae-1\<close> has just been pressed, and as two calls of
  \<open>handleElectronDrag\<close>.
\<close>

definition afterPress :: GameState where
  "afterPress = exec (prepare @ take 2 (cycle 1))"

definition thereAndBack :: "Event list" where
  "thereAndBack =
     [SvgPointerMove (400, 50), WirePoints anodePath cathodePath, SvgPointerMove (100, 300)]"

definition twoDrags :: "(string \<times> point option) list" where
  "twoDrags = [(''ae-1'', Some (400, 50)), (''ae-1'', Some (100, 300))]"

section \<open>Rounding to a double, evaluated\<close>

lemma floor_log2:
  assumes "2 powr of_int e \<le> x" and "x < 2 powr of_int (e + 1)"
  shows "\<lfloor>log 2 x\<rfloor> = e"
proof -
  have pos: "0 < x"
    using assms(1) by (smt (verit) powr_gt_zero)
  have "of_int e \<le> log 2 x"
    using assms(1) pos by (simp add: le_log_iff)
  moreover have "log 2 x < of_int e + 1"
    using assms(2) pos by (simp add: log_less_iff)
  ultimately show ?thesis
    by (simp add: floor_unique)
qed

lemma toDouble_binade:
  assumes "2 powr of_int e \<le> x" and "x < 2 powr of_int (e + 1)"
  shows "toDouble x = of_int (roundHalfEven (x / 2 powr of_int (e - 52))) * 2 powr of_int (e - 52)"
proof -
  have pos: "0 < x"
    using assms(1) by (smt (verit) powr_gt_zero)
  then show ?thesis
    using floor_log2 [OF assms] by (simp add: toDouble_def)
qed

lemma toDouble_binades:
  "1 / 128 \<le> x \<Longrightarrow> x < 1 / 64 \<Longrightarrow> toDouble x = of_int (roundHalfEven (x * 2 ^ 59)) / 2 ^ 59"
  "1 / 64 \<le> x \<Longrightarrow> x < 1 / 32 \<Longrightarrow> toDouble x = of_int (roundHalfEven (x * 2 ^ 58)) / 2 ^ 58"
  "1 / 32 \<le> x \<Longrightarrow> x < 1 / 16 \<Longrightarrow> toDouble x = of_int (roundHalfEven (x * 2 ^ 57)) / 2 ^ 57"
  "1 / 16 \<le> x \<Longrightarrow> x < 1 / 8 \<Longrightarrow> toDouble x = of_int (roundHalfEven (x * 2 ^ 56)) / 2 ^ 56"
  "1 / 8 \<le> x \<Longrightarrow> x < 1 / 4 \<Longrightarrow> toDouble x = of_int (roundHalfEven (x * 2 ^ 55)) / 2 ^ 55"
  "1 / 4 \<le> x \<Longrightarrow> x < 1 / 2 \<Longrightarrow> toDouble x = of_int (roundHalfEven (x * 2 ^ 54)) / 2 ^ 54"
  "1 / 2 \<le> x \<Longrightarrow> x < 1 \<Longrightarrow> toDouble x = of_int (roundHalfEven (x * 2 ^ 53)) / 2 ^ 53"
  "1 \<le> x \<Longrightarrow> x < 2 \<Longrightarrow> toDouble x = of_int (roundHalfEven (x * 2 ^ 52)) / 2 ^ 52"
  using toDouble_binade [of "-7" x] toDouble_binade [of "-6" x] toDouble_binade [of "-5" x]
    toDouble_binade [of "-4" x] toDouble_binade [of "-3" x] toDouble_binade [of "-2" x]
    toDouble_binade [of "-1" x] toDouble_binade [of "0" x]
  by (simp_all add: powr_minus_divide powr_realpow [symmetric] field_simps)

text \<open>The two literals: 0.01 and 0.95 as doubles.\<close>

lemma step_literal: "toDouble 0.01 = 5764607523034235 / 576460752303423488"
  by (simp add: toDouble_binades roundHalfEven_def)

lemma threshold: "toDouble 0.95 = 4278419646001971 / 4503599627370496"
  by (simp add: toDouble_binades roundHalfEven_def)

lemma threshold_below: "toDouble 0.95 < 0.95"
  by (simp add: toDouble_binades roundHalfEven_def)

lemma samplesFrom_numeral:
  "samplesFrom (numeral k) p =
     (if p \<le> 1 then p # samplesFrom (pred_numeral k) (toDouble (p + toDouble 0.01)) else [])"
  by (simp add: numeral_eq_Suc)

lemma samplesFrom_1:
  "samplesFrom 1 p = (if p \<le> 1 then [p] else [])"
  by (simp add: One_nat_def [symmetric] del: One_nat_def) (simp add: One_nat_def)

lemma samples_eq: "samples = map (\<lambda>m. real_of_int m / 2 ^ 59) sampleNumerators"
  by (simp add: samples_def sampleNumerators_def samplesFrom_numeral samplesFrom_1
      toDouble_binades roundHalfEven_def)

lemma length_samples: "length samples = 100"
  by (simp add: samples_eq sampleNumerators_def)

lemma samples_first: "samples = 0 # tl samples"
  by (simp add: samples_eq sampleNumerators_def)

lemma hd_samples: "hd samples = 0"
  by (subst samples_first) simp

lemma last_samples: "last samples = lastSample"
  by (simp add: samples_eq sampleNumerators_def lastSample_def)

lemma samples_range: "\<forall>q \<in> set samples. 0 \<le> q \<and> q \<le> lastSample"
  by (simp add: samples_eq sampleNumerators_def lastSample_def)

lemma samples_grid:
  "list_all2 (\<lambda>q k. \<bar>q - real k / 100\<bar> < 1 / 10 ^ 15) samples [0..<100]"
  by (simp add: samples_eq sampleNumerators_def upt_rec [where j = "numeral k" for k])

lemma samples_uniform:
  assumes "k < 100"
  shows "\<bar>samples ! k - real k / 100\<bar> < 1 / 10 ^ 15"
  using list_all2_nthD [OF samples_grid, of k] assms by (simp add: length_samples)

lemma lastSample_facts:
  "lastSample < 1" "0.95 \<le> lastSample" "max 0 lastSample = lastSample" "0 \<le> lastSample"
  by (simp_all add: lastSample_def)

lemma threshold_facts: "toDouble 0.95 \<le> lastSample" "toDouble 0.95 \<le> 1" "0 < toDouble 0.95"
  unfolding threshold by (simp_all add: lastSample_def)

section \<open>Path geometry: the results exist on a path that is not empty\<close>

lemma index_in_range: "0 \<le> i \<Longrightarrow> i < int (length xs) \<Longrightarrow> \<exists>v. index xs i = Some v"
  by (simp add: index_def)

lemma getPointOnPath_nonempty:
  assumes "points \<noteq> []"
  shows "\<exists>pt. getPointOnPath points p = Some pt"
proof -
  define n where "n = int (length points) - 1"
  have n: "0 \<le> n"
    using assms by (simp add: n_def Suc_leI)
  have len: "int (length points) = n + 1"
    by (simp add: n_def)
  show ?thesis
  proof (cases "p \<le> 0")
    case True
    then show ?thesis
      using n by (simp add: getPointOnPath_def index_def len)
  next
    case False
    note pos = this
    show ?thesis
    proof (cases "1 \<le> p")
      case True
      then show ?thesis
        using pos n by (simp add: getPointOnPath_def index_def len)
    next
      case False
      define k where "k = \<lfloor>p * real_of_int n\<rfloor>"
      have "0 \<le> p * real_of_int n"
        using pos n by (intro mult_nonneg_nonneg) simp_all
      then have k: "0 \<le> k"
        by (simp add: k_def)
      obtain a where a: "index points (min k n) = Some a"
        using index_in_range [of "min k n" points] k n len by auto
      obtain b where b: "index points (min (k + 1) n) = Some b"
        using index_in_range [of "min (k + 1) n" points] k n len by auto
      show ?thesis
        using pos False a b by (simp add: getPointOnPath_def Let_def flip: n_def k_def)
    qed
  qed
qed

lemma getPointOnPath_empty: "getPointOnPath [] p = None"
  by (simp add: getPointOnPath_def index_def Let_def)

section \<open>The loop visits the samples and returns the nearest one\<close>

lemma scanPath_samplesFrom:
  "length (samplesFrom n p) < n \<Longrightarrow>
     scanPath points dragX dragY p minDist best
       = scanList points dragX dragY (samplesFrom n p) minDist best"
proof (induction n arbitrary: p minDist best)
  case 0
  then show ?case
    by simp
next
  case (Suc n)
  show ?case
  proof (cases "p \<le> 1")
    case False
    then show ?thesis
      by (subst scanPath.simps) simp
  next
    case True
    then have "length (samplesFrom n (toDouble (p + toDouble 0.01))) < n"
      using Suc.prems by simp
    note ih = Suc.IH [OF this]
    have unfold: "samplesFrom (Suc n) p = p # samplesFrom n (toDouble (p + toDouble 0.01))"
      using True by simp
    show ?thesis
      unfolding unfold
      by (subst scanPath.simps) (simp only: True if_True scanList.simps ih)
  qed
qed

lemma scanPath_samples:
  "scanPath points dragX dragY 0 minDist best = scanList points dragX dragY samples minDist best"
  unfolding samples_def
  by (rule scanPath_samplesFrom) (simp add: length_samples [unfolded samples_def])

lemma scanList_nonempty:
  assumes "points \<noteq> []"
  shows "\<exists>b. scanList points dragX dragY ps minDist best = Some b"
proof (induction ps arbitrary: minDist best)
  case Nil
  show ?case
    by simp
next
  case (Cons p ps)
  obtain pt where pt: "getPointOnPath points p = Some pt"
    using getPointOnPath_nonempty [OF assms] by blast
  show ?case
    using Cons.IH pt by simp
qed

lemma scanList_char:
  assumes "scanList points dragX dragY ps minDist best = Some b"
  shows "(b = best \<and> (\<forall>q \<in> set ps. \<not> lessThanMin (distTo points dragX dragY q) minDist))
         \<or> (b \<in> set ps \<and> lessThanMin (distTo points dragX dragY b) minDist
            \<and> (\<forall>q \<in> set ps. distTo points dragX dragY b \<le> distTo points dragX dragY q))"
  using assms
proof (induction ps arbitrary: minDist best)
  case Nil
  then show ?case
    by simp
next
  case (Cons p ps)
  let ?D = "distTo points dragX dragY"
  obtain pt where pt: "getPointOnPath points p = Some pt"
    using Cons.prems by (auto split: option.splits)
  define d where "d = sqrt ((fst pt - dragX)\<^sup>2 + (snd pt - dragY)\<^sup>2)"
  have Dp: "?D p = d"
    by (simp add: distTo_def pt d_def)
  show ?case
  proof (cases "lessThanMin d minDist")
    case True
    have rec: "scanList points dragX dragY ps (Some d) p = Some b"
      using Cons.prems pt True by (simp add: d_def)
    from Cons.IH [OF rec] show ?thesis
    proof
      assume a: "b = p \<and> (\<forall>q \<in> set ps. \<not> lessThanMin (?D q) (Some d))"
      then have "\<forall>q \<in> set ps. ?D b \<le> ?D q"
        using Dp by (auto simp: lessThanMin_def)
      then show ?thesis
        using a True Dp by auto
    next
      assume a: "b \<in> set ps \<and> lessThanMin (?D b) (Some d)
                 \<and> (\<forall>q \<in> set ps. ?D b \<le> ?D q)"
      then have lt: "?D b < d"
        by (simp add: lessThanMin_def)
      then have "lessThanMin (?D b) minDist"
        using True by (auto simp: lessThanMin_def split: option.splits)
      then show ?thesis
        using a lt Dp by auto
    qed
  next
    case False
    have rec: "scanList points dragX dragY ps minDist best = Some b"
      using Cons.prems pt False by (simp add: d_def)
    from Cons.IH [OF rec] show ?thesis
    proof
      assume a: "b = best \<and> (\<forall>q \<in> set ps. \<not> lessThanMin (?D q) minDist)"
      then show ?thesis
        using False Dp by auto
    next
      assume a: "b \<in> set ps \<and> lessThanMin (?D b) minDist
                 \<and> (\<forall>q \<in> set ps. ?D b \<le> ?D q)"
      then have "?D b \<le> d"
        using False by (auto simp: lessThanMin_def split: option.splits)
      then show ?thesis
        using a Dp by auto
    qed
  qed
qed

lemma scanPath_nearest:
  assumes "points \<noteq> []"
  shows "\<exists>b \<in> set samples. scanPath points dragX dragY 0 None best = Some b
           \<and> (\<forall>q \<in> set samples. distTo points dragX dragY b \<le> distTo points dragX dragY q)"
proof -
  let ?D = "distTo points dragX dragY"
  obtain b where b: "scanList points dragX dragY samples None best = Some b"
    using scanList_nonempty [OF assms] by blast
  have "0 \<in> set samples"
    by (subst samples_first) simp
  then have "\<not> (\<forall>q \<in> set samples. \<not> lessThanMin (?D q) None)"
    by (auto simp: lessThanMin_def)
  with scanList_char [OF b] have "b \<in> set samples" and "\<forall>q \<in> set samples. ?D b \<le> ?D q"
    by blast+
  then show ?thesis
    using b by (auto simp: scanPath_samples)
qed

lemma scanPath_empty: "scanPath [] dragX dragY 0 minDist best = None"
  by (subst scanPath.simps) (simp add: getPointOnPath_empty)

lemma getProgressFromDrag_nearest:
  assumes "points \<noteq> []"
  shows "\<exists>b \<in> set samples. getProgressFromDrag points dragX dragY cur = Some (max cur b)
           \<and> (\<forall>q \<in> set samples. distTo points dragX dragY b \<le> distTo points dragX dragY q)"
  using scanPath_nearest [OF assms, of dragX dragY cur]
  by (auto simp: getProgressFromDrag_def)

lemma getProgressFromDrag_nonempty:
  "points \<noteq> [] \<Longrightarrow> \<exists>r. getProgressFromDrag points dragX dragY c = Some r"
  using getProgressFromDrag_nearest [of points dragX dragY c] by blast

lemma getProgressFromDrag_ge:
  "getProgressFromDrag points dragX dragY c = Some r \<Longrightarrow> c \<le> r"
  by (auto simp: getProgressFromDrag_def split: option.splits)

section \<open>The scan on squared distances returns the same progress\<close>

lemma lessThanMin_sqrt: "lessThanMin (sqrt a) (map_option sqrt m) = lessThanMin a m"
  by (cases m) (simp_all add: lessThanMin_def)

lemma scanList_scanSq:
  "scanList points dragX dragY ps (map_option sqrt minSq) best
     = scanSq points dragX dragY ps minSq best"
proof (induction ps arbitrary: minSq best)
  case Nil
  show ?case
    by simp
next
  case (Cons p ps)
  show ?case
  proof (cases "getPointOnPath points p")
    case None
    then show ?thesis
      by simp
  next
    case (Some pt)
    show ?thesis
      using Some Cons.IH [of "Some ((fst pt - dragX)\<^sup>2 + (snd pt - dragY)\<^sup>2)" p]
        Cons.IH [of minSq best]
      by (simp add: lessThanMin_sqrt)
  qed
qed

lemma getProgressFromDrag_scanSq:
  "getProgressFromDrag points dragX dragY c =
     map_option (max c) (scanSq points dragX dragY samples None c)"
  using scanList_scanSq [of points dragX dragY samples None c]
  by (simp add: getProgressFromDrag_def scanPath_samples split: option.splits)

section \<open>Evaluating the scenario\<close>

lemma scan_anode_end: "scanSq anodePath 400 50 samples None c = Some lastSample"
  by (simp add: samples_eq sampleNumerators_def anodePath_def getPointOnPath_def index_def
      Let_def lessThanMin_def lastSample_def power_divide)

lemma scan_cathode_end: "scanSq cathodePath 900 300 samples None c = Some lastSample"
  by (simp add: samples_eq sampleNumerators_def cathodePath_def getPointOnPath_def index_def
      Let_def lessThanMin_def lastSample_def power_divide)

lemma scan_anode_start: "scanSq anodePath 100 300 samples None c = Some 0"
  by (simp add: samples_eq sampleNumerators_def anodePath_def getPointOnPath_def index_def
      Let_def lessThanMin_def power_divide)

lemma drag_anode_end: "getProgressFromDrag anodePath 400 50 c = Some (max c lastSample)"
  by (simp add: getProgressFromDrag_scanSq scan_anode_end)

lemma drag_cathode_end: "getProgressFromDrag cathodePath 900 300 c = Some (max c lastSample)"
  by (simp add: getProgressFromDrag_scanSq scan_cathode_end)

lemma drag_anode_start: "getProgressFromDrag anodePath 100 300 c = Some (max c 0)"
  by (simp add: getProgressFromDrag_scanSq scan_anode_start)

lemma point_anode_stop: "getPointOnPath anodePath lastSample = Some anodeStop"
  by (simp add: getPointOnPath_def index_def anodePath_def lastSample_def anodeStop_def Let_def)

lemma point_cathode_stop: "getPointOnPath cathodePath lastSample = Some cathodeStop"
  by (simp add: getPointOnPath_def index_def cathodePath_def lastSample_def cathodeStop_def Let_def)

lemma path_facts: "length anodePath = 3" "length cathodePath = 3"
  "anodePath ! 0 = (100, 300)" "cathodePath ! 0 = (600, 50)"
  "anodePath \<noteq> []" "cathodePath \<noteq> []"
  by (simp_all add: anodePath_def cathodePath_def)

section \<open>Drag updates never lower progress\<close>

lemma advanced_refl: "advanced e e"
  by (simp add: advanced_def)

lemma advanced_trans: "advanced a b \<Longrightarrow> advanced b c \<Longrightarrow> advanced a c"
  by (auto simp: advanced_def)

lemma dragElectron_advanced: "advanced e (dragElectron a c i x y e)"
  by (auto simp: advanced_def dragElectron_def Let_def progressOr0_def
      split: option.splits dest: getProgressFromDrag_ge)

lemma list_all2_map_advanced: "list_all2 advanced xs (map (dragElectron a c i x y) xs)"
  by (simp add: list_all2_map2 list_all2_same dragElectron_advanced)

lemma waiting_length_advanced:
  "list_all2 advanced xs ys \<Longrightarrow>
     length (filter (\<lambda>e. status e = Waiting) ys) = length (filter (\<lambda>e. status e = Waiting) xs)"
  by (induction xs ys rule: list_all2_induct) (auto simp: advanced_def)

lemma handleElectronDrag_advanced:
  "list_all2 advanced (electrons s) (electrons (snd (handleElectronDrag i pt s)))"
  by (auto simp: handleElectronDrag_def list_all2_map_advanced list_all2_same advanced_refl
      split: option.splits)

lemma dragCalls_advanced: "list_all2 advanced (electrons s) (electrons (dragCalls calls s))"
proof (induction calls arbitrary: s)
  case Nil
  show ?case
    by (simp add: list_all2_same advanced_refl)
next
  case (Cons c calls)
  have a1: "list_all2 advanced (electrons s) (electrons (snd (handleElectronDrag (fst c) (snd c) s)))"
    by (rule handleElectronDrag_advanced)
  have a2: "list_all2 advanced (electrons (snd (handleElectronDrag (fst c) (snd c) s)))
              (electrons (dragCalls calls (snd (handleElectronDrag (fst c) (snd c) s))))"
    by (rule Cons.IH)
  have "list_all2 advanced (electrons s)
          (electrons (dragCalls calls (snd (handleElectronDrag (fst c) (snd c) s))))"
    using list_all2_trans [OF _ a1 a2] advanced_trans by blast
  then show ?case
    by simp
qed

lemma find_SomeD: "find P xs = Some x \<Longrightarrow> x \<in> set xs \<and> P x"
  by (induction xs) (auto split: if_splits)

lemma find_None_pid: "find (\<lambda>el. pid el = i) xs = None \<Longrightarrow> el \<in> set xs \<Longrightarrow> pid el \<noteq> i"
  by (induction xs) (auto split: if_splits)

text \<open>
  The electron that \<open>find\<close> returns for an id has the greatest progress among the
  electrons with that id.
\<close>

lemma found_dominates:
  assumes "sorted_wrt dominates xs" and "find (\<lambda>el. pid el = i) xs = Some e"
    and "el \<in> set xs" and "pid el = i"
  shows "progressOr0 el \<le> progressOr0 e"
  using assms
proof (induction xs)
  case Nil
  then show ?case
    by simp
next
  case (Cons x xs)
  show ?case
  proof (cases "pid x = i")
    case True
    then have e: "e = x"
      using Cons.prems(2) by simp
    show ?thesis
    proof (cases "el = x")
      case True
      then show ?thesis
        using e by simp
    next
      case False
      then have "el \<in> set xs"
        using Cons.prems(3) by simp
      then have "dominates x el"
        using Cons.prems(1) by simp
      then show ?thesis
        using e True Cons.prems(4) by (simp add: dominates_def)
    qed
  next
    case False
    then have "find (\<lambda>el. pid el = i) xs = Some e" and "el \<in> set xs"
      using Cons.prems by auto
    then show ?thesis
      using Cons.IH Cons.prems(1,4) by simp
  qed
qed

text \<open>What the pointer-move handler does, when it does anything.\<close>

lemma handleSvgPointerMove_cases:
  "handleSvgPointerMove pt s = ([], s)
   \<or> (\<exists>i e r pos.
         draggingElectronId s = Some i \<and> find (\<lambda>el. pid el = i) (electrons s) = Some e
         \<and> progressOr0 e \<le> r
         \<and> handleSvgPointerMove pt s
             = ([], s\<lparr>electrons :=
                        map (\<lambda>el. if pid el = i
                                  then el\<lparr>px := fst pos, py := snd pos, progress := Some r\<rparr>
                                  else el)
                          (electrons s)\<rparr>))"
  by (auto simp: handleSvgPointerMove_def Let_def split: option.splits
      dest: getProgressFromDrag_ge)

lemma progressOr0_update [simp]:
  "progressOr0 (el\<lparr>px := x, py := y, progress := Some r\<rparr>) = r"
  "progressOr0 (el\<lparr>status := st, progress := Some r\<rparr>) = r"
  by (simp_all add: progressOr0_def)

lemma moved_advanced:
  assumes "sorted_wrt dominates xs" and "find (\<lambda>el. pid el = i) xs = Some e"
    and "progressOr0 e \<le> r"
  shows "list_all2 advanced xs
           (map (\<lambda>el. if pid el = i then el\<lparr>px := x, py := y, progress := Some r\<rparr> else el) xs)"
proof -
  have "advanced el (if pid el = i then el\<lparr>px := x, py := y, progress := Some r\<rparr> else el)"
    if "el \<in> set xs" for el
  proof (cases "pid el = i")
    case True
    have "progressOr0 el \<le> progressOr0 e"
      using found_dominates [OF assms(1,2) that True] .
    then show ?thesis
      using True assms(3) by (simp add: advanced_def)
  next
    case False
    then show ?thesis
      by (simp add: advanced_refl)
  qed
  then show ?thesis
    by (simp add: list_all2_map2 list_all2_same)
qed

lemma moved_dominates:
  assumes "sorted_wrt dominates xs"
    and "\<And>el. pid (f el) = pid el" and "\<And>el. progressOr0 (f el) = r"
  shows "sorted_wrt dominates (map (\<lambda>el. if pid el = i then f el else el) xs)"
proof -
  let ?g = "\<lambda>el. if pid el = i then f el else el"
  have "sorted_wrt (\<lambda>a b. dominates (?g a) (?g b)) xs"
    using assms(1)
  proof (rule sorted_wrt_mono_rel [rotated])
    fix a b
    assume "a \<in> set xs" "b \<in> set xs" "dominates a b"
    then show "dominates (?g a) (?g b)"
      using assms(2,3) by (auto simp: dominates_def)
  qed
  then show ?thesis
    by (simp add: sorted_wrt_map)
qed

lemma pointerMove_advanced:
  assumes "progressInv s"
  shows "list_all2 advanced (electrons s) (electrons (snd (handleSvgPointerMove pt s)))"
proof -
  from handleSvgPointerMove_cases [of pt s] show ?thesis
  proof
    assume "handleSvgPointerMove pt s = ([], s)"
    then show ?thesis
      by (simp add: list_all2_same advanced_refl)
  next
    assume "\<exists>i e r pos.
         draggingElectronId s = Some i \<and> find (\<lambda>el. pid el = i) (electrons s) = Some e
         \<and> progressOr0 e \<le> r
         \<and> handleSvgPointerMove pt s
             = ([], s\<lparr>electrons :=
                        map (\<lambda>el. if pid el = i
                                  then el\<lparr>px := fst pos, py := snd pos, progress := Some r\<rparr>
                                  else el)
                          (electrons s)\<rparr>)"
    then obtain i e r pos where f: "find (\<lambda>el. pid el = i) (electrons s) = Some e"
      and r: "progressOr0 e \<le> r"
      and h: "handleSvgPointerMove pt s
             = ([], s\<lparr>electrons :=
                        map (\<lambda>el. if pid el = i
                                  then el\<lparr>px := fst pos, py := snd pos, progress := Some r\<rparr>
                                  else el)
                          (electrons s)\<rparr>)"
      by blast
    have "sorted_wrt dominates (electrons s)"
      using assms by (simp add: progressInv_def)
    from moved_advanced [OF this f r] show ?thesis
      by (simp add: h)
  qed
qed

lemma pointerMove_progressInv:
  assumes "progressInv s"
  shows "progressInv (snd (handleSvgPointerMove pt s))"
proof -
  from handleSvgPointerMove_cases [of pt s] show ?thesis
  proof
    assume "handleSvgPointerMove pt s = ([], s)"
    then show ?thesis
      using assms by simp
  next
    assume "\<exists>i e r pos.
         draggingElectronId s = Some i \<and> find (\<lambda>el. pid el = i) (electrons s) = Some e
         \<and> progressOr0 e \<le> r
         \<and> handleSvgPointerMove pt s
             = ([], s\<lparr>electrons :=
                        map (\<lambda>el. if pid el = i
                                  then el\<lparr>px := fst pos, py := snd pos, progress := Some r\<rparr>
                                  else el)
                          (electrons s)\<rparr>)"
    then obtain i e r pos where f: "find (\<lambda>el. pid el = i) (electrons s) = Some e"
      and r: "progressOr0 e \<le> r"
      and h: "handleSvgPointerMove pt s
             = ([], s\<lparr>electrons :=
                        map (\<lambda>el. if pid el = i
                                  then el\<lparr>px := fst pos, py := snd pos, progress := Some r\<rparr>
                                  else el)
                          (electrons s)\<rparr>)"
      by blast
    have nonneg: "list_all (\<lambda>e. 0 \<le> progressOr0 e) (electrons s)"
      and sorted: "sorted_wrt dominates (electrons s)"
      using assms by (simp_all add: progressInv_def)
    have "e \<in> set (electrons s)"
      using find_SomeD [OF f] by simp
    then have "0 \<le> r"
      using nonneg r by (auto simp: list_all_iff)
    then have "list_all (\<lambda>e. 0 \<le> progressOr0 e)
                 (map (\<lambda>el. if pid el = i
                            then el\<lparr>px := fst pos, py := snd pos, progress := Some r\<rparr>
                            else el) (electrons s))"
      using nonneg by (induction "electrons s") (auto simp: list_all_iff)
    moreover have "sorted_wrt dominates
                 (map (\<lambda>el. if pid el = i
                            then el\<lparr>px := fst pos, py := snd pos, progress := Some r\<rparr>
                            else el) (electrons s))"
      using sorted by (rule moved_dominates) simp_all
    ultimately show ?thesis
      by (simp add: h progressInv_def)
  qed
qed

lemma handle_drag_update:
  assumes "isDragUpdate ev" and "progressInv s"
  shows "list_all2 advanced (electrons s) (electrons (snd (handle ev s)))
         \<and> ions (snd (handle ev s)) = ions s \<and> progressInv (snd (handle ev s))"
proof (cases ev)
  case (SvgPointerMove pt)
  have "ions (snd (handleSvgPointerMove pt s)) = ions s"
    using handleSvgPointerMove_cases [of pt s] by auto
  then show ?thesis
    using SvgPointerMove pointerMove_advanced [OF assms(2)] pointerMove_progressInv [OF assms(2)]
    by simp
next
  case (ElectronPointerDown i)
  then show ?thesis
    using assms(2)
    by (simp add: handleElectronPointerDown_def progressInv_def list_all2_same advanced_refl)
next
  case SvgMouseLeave
  then show ?thesis
    using assms(2)
    by (simp add: handleSvgMouseLeave_def progressInv_def list_all2_same advanced_refl
        split: option.splits)
next
  case (WirePoints a c)
  then show ?thesis
    using assms(2) by (simp add: progressInv_def list_all2_same advanced_refl)
qed (use assms(1) in simp_all)

lemma pairingEffect_idle: "pairs s = 0 \<Longrightarrow> pairingEffect s = ([], s)"
  by (simp add: pairingEffect_def)

lemma step_drag_update:
  assumes "isDragUpdate ev" and "progressInv s" and "pairs s = 0"
  shows "list_all2 advanced (electrons s) (electrons (snd (step ev s)))
         \<and> pairs (snd (step ev s)) = 0 \<and> progressInv (snd (step ev s))"
proof -
  obtain out s1 where h: "handle ev s = (out, s1)"
    by (cases "handle ev s")
  have adv: "list_all2 advanced (electrons s) (electrons s1)" and io: "ions s1 = ions s"
    and inv: "progressInv s1"
    using handle_drag_update [OF assms(1,2)] h by simp_all
  have "pairs s1 = pairs s"
    using waiting_length_advanced [OF adv] io
    by (simp add: pairs_def waitingIons_def waitingElectrons_def)
  then have p1: "pairs s1 = 0"
    using assms(3) by simp
  have "step ev s = (out, s1)"
    by (simp add: step_def h pairingEffect_idle [OF p1])
  then show ?thesis
    using adv p1 inv by simp
qed

lemma run_Cons_snd: "snd (run (ev # evs) s) = snd (run evs (snd (step ev s)))"
  by (simp add: case_prod_beta)

lemma run_Cons_fst: "fst (run (ev # evs) s) = fst (step ev s) @ fst (run evs (snd (step ev s)))"
  by (simp add: case_prod_beta)

lemma run_append_snd: "snd (run (xs @ ys) s) = snd (run ys (snd (run xs s)))"
  by (induction xs arbitrary: s) (simp_all add: case_prod_beta)

lemma run_append_fst: "fst (run (xs @ ys) s) = fst (run xs s) @ fst (run ys (snd (run xs s)))"
  by (induction xs arbitrary: s) (simp_all add: case_prod_beta)

lemma run_drag_updates:
  "list_all isDragUpdate evs \<Longrightarrow> progressInv s \<Longrightarrow> pairs s = 0 \<Longrightarrow>
     list_all2 advanced (electrons s) (electrons (snd (run evs s)))"
proof (induction evs arbitrary: s)
  case Nil
  show ?case
    by (simp add: list_all2_same advanced_refl)
next
  case (Cons ev evs)
  obtain out s1 where st: "step ev s = (out, s1)"
    by (cases "step ev s")
  have a1: "list_all2 advanced (electrons s) (electrons s1)" and p1: "pairs s1 = 0"
    and i1: "progressInv s1"
    using step_drag_update [of ev s] Cons.prems st by simp_all
  have a2: "list_all2 advanced (electrons s1) (electrons (snd (run evs s1)))"
    using Cons.IH [OF _ i1 p1] Cons.prems by simp
  have "list_all2 advanced (electrons s) (electrons (snd (run evs s1)))"
    using list_all2_trans [OF _ a1 a2] advanced_trans by blast
  then show ?case
    unfolding run_Cons_snd st by simp
qed

section \<open>Every reachable state is well formed\<close>

lemma active_map_le:
  "length (filter (\<lambda>p. status p = Active) (map (\<lambda>p. if pid p = i then f p else p) xs))
     \<le> length (filter (\<lambda>p. status p = Active) xs)"
  if "\<And>p. status (f p) \<noteq> Active"
  using that by (induction xs) auto

lemma active_map_same:
  "filter (\<lambda>p. status p = Active) (map (\<lambda>p. if pid p = i then f p else p) xs)
     = map (\<lambda>p. if pid p = i then f p else p) (filter (\<lambda>p. status p = Active) xs)"
  if "\<And>p. status (f p) = status p"
  using that by (induction xs) auto

lemma active_filter_less:
  assumes "e \<in> set xs" and "status e = Active" and "\<not> Q e"
  shows "length (filter (\<lambda>p. status p = Active) (filter Q xs))
           < length (filter (\<lambda>p. status p = Active) xs)"
proof -
  have "e \<in> set (filter (\<lambda>p. status p = Active) xs)"
    using assms by simp
  then have "length (filter Q (filter (\<lambda>p. status p = Active) xs))
               < length (filter (\<lambda>p. status p = Active) xs)"
    using assms(3) by (rule length_filter_less)
  then show ?thesis
    by (simp add: conj_commute)
qed

lemma wellFormed_initial: "wellFormed initialState"
  by (simp add: wellFormed_def circuitInv_def initialState_def activeParticles_def)

lemma wellFormed_spawnIon: "wellFormed s \<Longrightarrow> wellFormed (snd (spawnIon now1 now2 s))"
  by (auto simp: wellFormed_def circuitInv_def spawnIon_def Let_def activeParticles_def
      electronInv_def newIon_def newAnodeElectron_def)

lemma wellFormed_handleIonDragEnd:
  "wellFormed s \<Longrightarrow> wellFormed (snd (handleIonDragEnd cr bk i pt s))"
  using active_map_le [of "\<lambda>p. p\<lparr>status := Waiting\<rparr>" i "ions s"]
  by (auto simp: wellFormed_def circuitInv_def handleIonDragEnd_def activeParticles_def)

lemma wellFormed_handleSvgPointerMove:
  assumes "wellFormed s"
  shows "wellFormed (snd (handleSvgPointerMove pt s))"
proof -
  from handleSvgPointerMove_cases [of pt s] show ?thesis
  proof
    assume "handleSvgPointerMove pt s = ([], s)"
    then show ?thesis
      using assms by simp
  next
    assume "\<exists>i e r pos.
         draggingElectronId s = Some i \<and> find (\<lambda>el. pid el = i) (electrons s) = Some e
         \<and> progressOr0 e \<le> r
         \<and> handleSvgPointerMove pt s
             = ([], s\<lparr>electrons :=
                        map (\<lambda>el. if pid el = i
                                  then el\<lparr>px := fst pos, py := snd pos, progress := Some r\<rparr>
                                  else el)
                          (electrons s)\<rparr>)"
    then obtain i r pos where h: "handleSvgPointerMove pt s
             = ([], s\<lparr>electrons :=
                        map (\<lambda>el. if pid el = i
                                  then el\<lparr>px := fst pos, py := snd pos, progress := Some r\<rparr>
                                  else el)
                          (electrons s)\<rparr>)"
      by blast
    let ?f = "\<lambda>el. el\<lparr>px := fst pos, py := snd pos, progress := Some r\<rparr>"
    have act: "length (filter (\<lambda>p. status p = Active)
                 (map (\<lambda>el. if pid el = i then ?f el else el) (electrons s)))
               = length (filter (\<lambda>p. status p = Active) (electrons s))"
      using active_map_same [of ?f i "electrons s"] by simp
    have "list_all electronInv (map (\<lambda>el. if pid el = i then ?f el else el) (electrons s))"
      using assms by (auto simp: wellFormed_def list_all_iff electronInv_def)
    then show ?thesis
      using assms act by (simp add: h wellFormed_def circuitInv_def activeParticles_def)
  qed
qed

lemma wellFormed_handleElectronDragEnd:
  assumes "wellFormed s"
  shows "wellFormed (snd (handleElectronDragEnd i now s))"
proof (cases "find (\<lambda>e. pid e = i) (electrons s)")
  case None
  then show ?thesis
    using assms by (simp add: handleElectronDragEnd_def)
next
  case (Some e)
  then have mem: "e \<in> set (electrons s)" and id: "pid e = i"
    using find_SomeD [of "\<lambda>e. pid e = i" "electrons s" e] by simp_all
  have all: "list_all electronInv (electrons s)" and act: "activeParticles s \<le> 6"
    and circ: "circuitInv s"
    using assms by (simp_all add: wellFormed_def)
  have inv_e: "electronInv e"
    using all mem by (simp add: list_all_iff)
  consider (anode) "segment e = Some AnodeWire" "progressOr0 e \<ge> toDouble 0.95"
    | (cathode) "segment e = Some CathodeWire" "progressOr0 e \<ge> toDouble 0.95"
    | (other) "\<not> (segment e = Some AnodeWire \<and> progressOr0 e \<ge> toDouble 0.95)"
              "\<not> (segment e = Some CathodeWire \<and> progressOr0 e \<ge> toDouble 0.95)"
    by blast
  then show ?thesis
  proof cases
    case anode
    have "status e = Active"
      using inv_e anode(1) by (auto simp: electronInv_def)
    then have less: "length (filter (\<lambda>p. status p = Active) (filter (\<lambda>e. pid e \<noteq> i) (electrons s)))
                 < length (filter (\<lambda>p. status p = Active) (electrons s))"
      using active_filter_less [OF mem, of "\<lambda>e. pid e \<noteq> i"] id by simp
    show ?thesis
      using anode Some all act circ less
      by (auto simp: handleElectronDragEnd_def Let_def wellFormed_def circuitInv_def
          activeParticles_def electronInv_def list_all_iff newCathodeElectron_def)
  next
    case cathode
    have pre: "take 3 i = ''ce-''"
      using inv_e cathode(1) id by (auto simp: electronInv_def)
    have le: "length (filter (\<lambda>p. status p = Active)
                (map (\<lambda>e. if pid e = i then e\<lparr>status := Waiting, progress := Some 1\<rparr> else e)
                   (electrons s)))
              \<le> length (filter (\<lambda>p. status p = Active) (electrons s))"
      using active_map_le [of "\<lambda>e. e\<lparr>status := Waiting, progress := Some 1\<rparr>" i "electrons s"]
      by simp
    have "list_all electronInv
            (map (\<lambda>e. if pid e = i then e\<lparr>status := Waiting, progress := Some 1\<rparr> else e)
               (electrons s))"
      using all pre by (auto simp: list_all_iff electronInv_def)
    then show ?thesis
      using cathode Some act circ le
      by (auto simp: handleElectronDragEnd_def wellFormed_def circuitInv_def activeParticles_def)
  next
    case other
    then show ?thesis
      using Some assms by (auto simp: handleElectronDragEnd_def)
  qed
qed

lemma wellFormed_dragging:
  "wellFormed (s\<lparr>draggingElectronId := d\<rparr>) = wellFormed s"
  by (simp add: wellFormed_def circuitInv_def activeParticles_def)

lemma wellFormed_handle: "wellFormed s \<Longrightarrow> wellFormed (snd (handle ev s))"
proof (cases ev)
  case (SpawnIon n1 n2)
  then show "wellFormed s \<Longrightarrow> ?thesis"
    by (simp add: wellFormed_spawnIon)
next
  case (IonDragEnd cr bk i pt)
  then show "wellFormed s \<Longrightarrow> ?thesis"
    by (simp add: wellFormed_handleIonDragEnd)
next
  case (SvgPointerMove pt)
  then show "wellFormed s \<Longrightarrow> ?thesis"
    by (simp add: wellFormed_handleSvgPointerMove)
next
  case (SvgPointerUp now)
  then show "wellFormed s \<Longrightarrow> ?thesis"
    by (simp add: handleSvgPointerUp_def wellFormed_dragging wellFormed_handleElectronDragEnd
        split: option.splits)
next
  case (ElectronPointerDown i)
  then show "wellFormed s \<Longrightarrow> ?thesis"
    by (simp add: handleElectronPointerDown_def wellFormed_dragging)
next
  case SvgMouseLeave
  then show "wellFormed s \<Longrightarrow> ?thesis"
    by (simp add: handleSvgMouseLeave_def wellFormed_dragging split: option.splits)
qed (auto simp: wellFormed_def circuitInv_def activeParticles_def resetGame_def)

lemma wellFormed_pairingEffect: "wellFormed s \<Longrightarrow> wellFormed (snd (pairingEffect s))"
proof -
  assume wf: "wellFormed s"
  have le: "length (filter (\<lambda>p. status p = Active) (filter Q xs))
               \<le> length (filter (\<lambda>p. status p = Active) xs)" for Q and xs :: "Particle list"
    by (induction xs) auto
  show ?thesis
    using wf le [of "\<lambda>p. pid p \<notin> set (map pid (take (pairs s) (waitingIons s)))" "ions s"]
      le [of "\<lambda>p. pid p \<notin> set (map pid (take (pairs s) (waitingElectrons s)))" "electrons s"]
    by (auto simp: pairingEffect_def Let_def wellFormed_def circuitInv_def activeParticles_def
        list_all_iff)
qed

lemma wellFormed_step: "wellFormed s \<Longrightarrow> wellFormed (snd (step ev s))"
  using wellFormed_pairingEffect [OF wellFormed_handle, of s ev]
  by (simp add: step_def case_prod_beta)

lemma wellFormed_run: "wellFormed s \<Longrightarrow> wellFormed (snd (run evs s))"
  by (induction evs arbitrary: s) (simp_all add: case_prod_beta wellFormed_step)

lemma wellFormed_exec: "wellFormed (exec evs)"
  by (simp add: exec_def wellFormed_run wellFormed_initial)

section \<open>The first of two electrons with one id is ahead in every reachable state\<close>

lemma progressInv_electrons:
  "electrons s' = electrons s \<Longrightarrow> progressInv s' = progressInv s"
  by (simp add: progressInv_def)

lemma progressInv_append:
  assumes "progressInv s" and "progressOr0 e = 0"
  shows "progressInv (s\<lparr>electrons := electrons s @ [e]\<rparr>)"
  using assms by (auto simp: progressInv_def sorted_wrt_append dominates_def list_all_iff)

lemma progressInv_filter:
  assumes "progressInv s"
  shows "progressInv (s\<lparr>electrons := filter Q (electrons s)\<rparr>)"
  using assms by (auto simp: progressInv_def sorted_wrt_filter list_all_iff)

lemma progressInv_initial: "progressInv initialState"
  by (simp add: progressInv_def initialState_def)

lemma progressInv_spawnIon: "progressInv s \<Longrightarrow> progressInv (snd (spawnIon now1 now2 s))"
proof -
  assume inv: "progressInv s"
  have "progressInv (s\<lparr>electrons := electrons s @ [newAnodeElectron now2 (anodeWirePoints s)]\<rparr>)"
    using inv by (rule progressInv_append) (simp add: newAnodeElectron_def Let_def progressOr0_def)
  then show ?thesis
    using inv by (simp add: spawnIon_def progressInv_def)
qed

lemma progressInv_handleElectronDragEnd:
  assumes "progressInv s"
  shows "progressInv (snd (handleElectronDragEnd i now s))"
proof (cases "find (\<lambda>e. pid e = i) (electrons s)")
  case None
  then show ?thesis
    using assms by (simp add: handleElectronDragEnd_def)
next
  case (Some e)
  consider (anode) "segment e = Some AnodeWire \<and> progressOr0 e \<ge> toDouble 0.95"
    | (cathode) "\<not> (segment e = Some AnodeWire \<and> progressOr0 e \<ge> toDouble 0.95)"
                "segment e = Some CathodeWire \<and> progressOr0 e \<ge> toDouble 0.95"
    | (other) "\<not> (segment e = Some AnodeWire \<and> progressOr0 e \<ge> toDouble 0.95)"
              "\<not> (segment e = Some CathodeWire \<and> progressOr0 e \<ge> toDouble 0.95)"
    by blast
  then show ?thesis
  proof cases
    case anode
    have "progressInv (s\<lparr>electrons := filter (\<lambda>e. pid e \<noteq> i) (electrons s)\<rparr>)"
      using assms by (rule progressInv_filter)
    from progressInv_append [OF this, of "newCathodeElectron now (cathodeWirePoints s)"]
    have "progressInv (s\<lparr>electrons := filter (\<lambda>e. pid e \<noteq> i) (electrons s)
                          @ [newCathodeElectron now (cathodeWirePoints s)]\<rparr>)"
      by (simp add: newCathodeElectron_def Let_def progressOr0_def)
    then show ?thesis
      using Some anode by (simp add: handleElectronDragEnd_def)
  next
    case cathode
    let ?g = "\<lambda>e. if pid e = i then e\<lparr>status := Waiting, progress := Some 1\<rparr> else e"
    have nonneg: "list_all (\<lambda>e. 0 \<le> progressOr0 e) (electrons s)"
      and sorted: "sorted_wrt dominates (electrons s)"
      using assms by (simp_all add: progressInv_def)
    have "list_all (\<lambda>e. 0 \<le> progressOr0 e) (map ?g (electrons s))"
      using nonneg by (induction "electrons s") (auto simp: list_all_iff)
    moreover have "sorted_wrt dominates (map ?g (electrons s))"
      using sorted by (rule moved_dominates) simp_all
    ultimately show ?thesis
      using Some cathode by (simp add: handleElectronDragEnd_def progressInv_def)
  next
    case other
    then show ?thesis
      using Some assms by (auto simp: handleElectronDragEnd_def)
  qed
qed

lemma progressInv_handle: "progressInv s \<Longrightarrow> progressInv (snd (handle ev s))"
proof (cases ev)
  case (SpawnIon n1 n2)
  then show "progressInv s \<Longrightarrow> ?thesis"
    by (simp add: progressInv_spawnIon)
next
  case (IonDragEnd cr bk i pt)
  then show "progressInv s \<Longrightarrow> ?thesis"
    by (simp add: handleIonDragEnd_def progressInv_def)
next
  case (SvgPointerMove pt)
  then show "progressInv s \<Longrightarrow> ?thesis"
    by (simp add: pointerMove_progressInv)
next
  case (SvgPointerUp now)
  then show "progressInv s \<Longrightarrow> ?thesis"
    using progressInv_handleElectronDragEnd [of s]
    by (simp add: handleSvgPointerUp_def progressInv_def split: option.splits)
next
  case (ElectronPointerDown i)
  then show "progressInv s \<Longrightarrow> ?thesis"
    by (simp add: handleElectronPointerDown_def progressInv_def)
next
  case SvgMouseLeave
  then show "progressInv s \<Longrightarrow> ?thesis"
    by (simp add: handleSvgMouseLeave_def progressInv_def split: option.splits)
qed (auto simp: progressInv_def resetGame_def)

lemma progressInv_pairingEffect: "progressInv s \<Longrightarrow> progressInv (snd (pairingEffect s))"
  using progressInv_filter [of s]
  by (auto simp: pairingEffect_def Let_def progressInv_def)

lemma progressInv_step: "progressInv s \<Longrightarrow> progressInv (snd (step ev s))"
  using progressInv_pairingEffect [OF progressInv_handle, of s ev]
  by (simp add: step_def case_prod_beta)

lemma progressInv_run: "progressInv s \<Longrightarrow> progressInv (snd (run evs s))"
  by (induction evs arbitrary: s) (simp_all add: case_prod_beta progressInv_step)

lemma progressInv_exec: "progressInv (exec evs)"
  by (simp add: exec_def progressInv_run progressInv_initial)

section \<open>With distinct ids the pointer handlers do what the drag callback does\<close>

lemma distinct_pid_unique:
  "distinct (map pid xs) \<Longrightarrow> e \<in> set xs \<Longrightarrow> el \<in> set xs \<Longrightarrow> pid el = pid e \<Longrightarrow> el = e"
  by (meson distinct_map inj_onD)

lemma pointerMove_eq_handleElectronDrag:
  assumes "distinct (map pid (electrons s))" and "draggingElectronId s = Some i"
  shows "handleSvgPointerMove svgPoint s = handleElectronDrag i (Some svgPoint) s"
proof (cases "find (\<lambda>el. pid el = i) (electrons s)")
  case None
  have "map (dragElectron (anodeWirePoints s) (cathodeWirePoints s) i (fst svgPoint) (snd svgPoint))
          (electrons s) = electrons s"
    using find_None_pid [OF None] by (intro map_idI) (simp add: dragElectron_def)
  then show ?thesis
    using None assms(2) by (simp add: handleSvgPointerMove_def handleElectronDrag_def)
next
  case (Some e)
  then have mem: "e \<in> set (electrons s)" and id: "pid e = i"
    using find_SomeD [of "\<lambda>el. pid el = i" "electrons s" e] by simp_all
  let ?pts = "if segment e = Some AnodeWire then anodeWirePoints s else cathodeWirePoints s"
  let ?d = "dragElectron (anodeWirePoints s) (cathodeWirePoints s) i (fst svgPoint) (snd svgPoint)"
  have only: "el = e" if "el \<in> set (electrons s)" "pid el = i" for el
    using distinct_pid_unique [OF assms(1) mem that(1)] that(2) id by simp
  show ?thesis
  proof (cases "?pts = []")
    case True
    have "map ?d (electrons s) = electrons s"
    proof (intro map_idI)
      fix el assume el: "el \<in> set (electrons s)"
      show "?d el = el"
      proof (cases "pid el = i")
        case True
        then have "el = e" using only el by simp
        then show ?thesis using \<open>?pts = []\<close> by (simp add: dragElectron_def Let_def)
      next
        case False
        then show ?thesis by (simp add: dragElectron_def)
      qed
    qed
    then show ?thesis
      using Some True assms(2) by (simp add: handleSvgPointerMove_def handleElectronDrag_def Let_def)
  next
    case False
    obtain r where r: "getProgressFromDrag ?pts (fst svgPoint) (snd svgPoint) (progressOr0 e) = Some r"
      using getProgressFromDrag_nonempty [OF False] by blast
    obtain pt where pt: "getPointOnPath ?pts r = Some pt"
      using getPointOnPath_nonempty [OF False] by blast
    have "map (\<lambda>el. if pid el = i then el\<lparr>px := fst pt, py := snd pt, progress := Some r\<rparr> else el)
            (electrons s) = map ?d (electrons s)"
    proof (intro map_cong refl)
      fix el assume el: "el \<in> set (electrons s)"
      show "(if pid el = i then el\<lparr>px := fst pt, py := snd pt, progress := Some r\<rparr> else el) = ?d el"
      proof (cases "pid el = i")
        case True
        then have "el = e" using only el by simp
        then show ?thesis
          using True False r pt by (simp add: dragElectron_def Let_def)
      next
        case False
        then show ?thesis by (simp add: dragElectron_def)
      qed
    qed
    note same = this
    have move: "handleSvgPointerMove svgPoint s
          = ([], s\<lparr>electrons :=
                   map (\<lambda>el. if pid el = i
                             then el\<lparr>px := fst pt, py := snd pt, progress := Some r\<rparr>
                             else el) (electrons s)\<rparr>)"
      using Some False r pt assms(2) by (simp add: handleSvgPointerMove_def Let_def)
    have drag: "handleElectronDrag i (Some svgPoint) s = ([], s\<lparr>electrons := map ?d (electrons s)\<rparr>)"
      by (simp add: handleElectronDrag_def)
    show ?thesis
      by (simp only: move drag same)
  qed
qed

section \<open>The pairing effect\<close>

lemma step_snd: "snd (step ev s) = snd (pairingEffect (snd (handle ev s)))"
  by (simp add: step_def case_prod_beta)

lemma filter_used_exact:
  assumes "distinct (map pid xs)"
  shows "filter (\<lambda>p. pid p \<notin> set (map pid (take n (filter (\<lambda>p. status p = Waiting) xs)))) xs
           = removeFirstWaiting n xs"
  using assms
proof (induction xs arbitrary: n)
  case Nil
  show ?case
    by (cases n) simp_all
next
  case (Cons x xs)
  let ?W = "\<lambda>p. status p = Waiting"
  have dx: "distinct (map pid xs)" and fresh: "pid x \<notin> pid ` set xs"
    using Cons.prems by simp_all
  have ne: "pid p \<noteq> pid x" if "p \<in> set xs" for p
    using fresh that by (metis imageI)
  show ?case
  proof (cases n)
    case 0
    then show ?thesis
      by simp
  next
    case (Suc m)
    show ?thesis
    proof (cases "status x = Waiting")
      case True
      have "filter (\<lambda>p. pid p \<noteq> pid x \<and> pid p \<notin> pid ` set (take m (filter ?W xs))) xs
              = filter (\<lambda>p. pid p \<notin> pid ` set (take m (filter ?W xs))) xs"
        using ne by (intro filter_cong) simp_all
      then show ?thesis
        using True Suc Cons.IH [OF dx, of m] by simp
    next
      case False
      have "set (take n (filter ?W xs)) \<subseteq> set xs"
        using set_take_subset [of n "filter ?W xs"] by auto
      then have "pid x \<notin> pid ` set (take n (filter ?W xs))"
        using fresh by auto
      then show ?thesis
        using False Suc Cons.IH [OF dx, of n] by simp
    qed
  qed
qed

lemma length_removeFirstWaiting:
  "n \<le> length (filter (\<lambda>p. status p = Waiting) xs) \<Longrightarrow>
     length (removeFirstWaiting n xs) + n = length xs"
proof (induction n xs rule: removeFirstWaiting.induct)
  case (1 xs)
  show ?case by simp
next
  case (2 n)
  then show ?case by simp
next
  case (3 n x xs)
  then show ?case
    by (cases "status x = Waiting") simp_all
qed

lemma waiting_all_used:
  assumes "length (filter (\<lambda>p. status p = Waiting) xs) \<le> n"
  shows "filter (\<lambda>p. status p = Waiting)
           (filter (\<lambda>p. pid p \<notin> set (map pid (take n (filter (\<lambda>p. status p = Waiting) xs)))) xs)
         = []"
proof -
  have "take n (filter (\<lambda>p. status p = Waiting) xs) = filter (\<lambda>p. status p = Waiting) xs"
    using assms by simp
  then show ?thesis
    by (auto simp: filter_empty_conv)
qed

lemma pairingEffect_fields:
  "anodeMass (snd (pairingEffect s)) = anodeMass s"
  "cathodeMass (snd (pairingEffect s)) = cathodeMass s + MASS_PER_UNIT * int (pairs s)"
  "platedCount (snd (pairingEffect s)) = platedCount s + int (pairs s)"
  "ions (snd (pairingEffect s))
     = filter (\<lambda>p. pid p \<notin> set (map pid (take (pairs s) (waitingIons s)))) (ions s)"
  "electrons (snd (pairingEffect s))
     = filter (\<lambda>p. pid p \<notin> set (map pid (take (pairs s) (waitingElectrons s)))) (electrons s)"
  by (simp_all add: pairingEffect_def Let_def pairs_def)

lemma pairingEffect_exhaustive: "pairs (snd (pairingEffect s)) = 0"
proof (cases "length (waitingIons s) \<le> length (waitingElectrons s)")
  case True
  then have "pairs s = length (waitingIons s)"
    by (simp add: pairs_def)
  then have "waitingIons (snd (pairingEffect s)) = []"
    using waiting_all_used [of "ions s" "pairs s"]
    by (simp add: waitingIons_def pairingEffect_fields)
  then show ?thesis
    by (simp add: pairs_def)
next
  case False
  then have "pairs s = length (waitingElectrons s)"
    by (simp add: pairs_def)
  then have "waitingElectrons (snd (pairingEffect s)) = []"
    using waiting_all_used [of "electrons s" "pairs s"]
    by (simp add: waitingElectrons_def pairingEffect_fields)
  then show ?thesis
    by (simp add: pairs_def)
qed

lemma pairingEffect_stable: "pairingEffect (snd (pairingEffect s)) = ([], snd (pairingEffect s))"
  using pairingEffect_exhaustive [of s] by (rule pairingEffect_idle)

lemma step_exhaustive: "pairs (snd (step ev s)) = 0"
  by (simp add: step_def case_prod_beta pairingEffect_exhaustive)

section \<open>Evaluating the plating cycle\<close>

lemmas handler_defs = step_def spawnIon_def newIon_def newAnodeElectron_def
  newCathodeElectron_def handleIonDragEnd_def handleElectronPointerDown_def
  handleSvgPointerMove_def handleSvgPointerUp_def handleSvgMouseLeave_def
  handleElectronDragEnd_def [unfolded threshold] pairingEffect_def resetGame_def
  activeParticles_def waitingIons_def waitingElectrons_def pairs_def hasWaitingElectron_def
  progressOr0_def outsideBounds_def insideRect_def getElectrolyteBounds_def
  ANODE_START_MASS_def CATHODE_START_MASS_def MASS_PER_UNIT_def TOTAL_PLATING_GOAL_def
  Let_def

lemmas layout_simps = drag_anode_end drag_cathode_end point_anode_stop [unfolded lastSample_def]
  point_cathode_stop [unfolded lastSample_def] path_facts beakerRect_def cathodeRect_def
  lastSample_def anodeStop_def cathodeStop_def

lemma run_cycle:
  assumes "k < 8"
  shows "run (cycle t) (stateAfter k) = (cycleFeedback k, stateAfter (Suc k))"
  using assms
  by (simp add: cycle_def stateAfter_def cycleFeedback_def handler_defs layout_simps)

lemma exec_prepare: "exec prepare = stateAfter 0"
  by (simp add: exec_def prepare_def initialState_def stateAfter_def handler_defs)

lemma exec_append: "exec (xs @ ys) = snd (run ys (exec xs))"
  by (simp add: exec_def run_append_snd)

lemma feedbackOf_append: "feedbackOf (xs @ ys) = feedbackOf xs @ fst (run ys (exec xs))"
  by (simp add: exec_def feedbackOf_def run_append_fst)

lemma exec_cycles: "k \<le> 8 \<Longrightarrow> exec (prepare @ cycles k) = stateAfter k"
proof (induction k)
  case 0
  show ?case
    by (simp add: exec_prepare)
next
  case (Suc k)
  have "exec (prepare @ cycles (Suc k)) = snd (run (cycle (Suc k)) (exec (prepare @ cycles k)))"
    using exec_append [of "prepare @ cycles k" "cycle (Suc k)"] by simp
  also have "\<dots> = snd (run (cycle (Suc k)) (stateAfter k))"
    using Suc by simp
  also have "\<dots> = stateAfter (Suc k)"
    using Suc.prems by (simp add: run_cycle)
  finally show ?case .
qed

lemmas scenario_simps = afterSpawn_def afterAnodeDrag_def afterCathodeDrag_def afterArrival_def
  exec_append exec_prepare cycle_def stateAfter_def handler_defs layout_simps decimal.simps

lemma afterSpawn_eq:
  "afterSpawn =
     (stateAfter 0)\<lparr>ions := [\<lparr>pid = ''ion-1'', ptype = Ion, px = 0, py = 0, status = Active,
                                segment = None, progress = None\<rparr>],
                      electrons := [\<lparr>pid = ''ae-1'', ptype = AnodeElectron, px = 100, py = 300,
                                     status = Active, segment = Some AnodeWire,
                                     progress = Some 0\<rparr>],
                      anodeMass := 45\<rparr>"
  by (simp add: scenario_simps)

lemma afterAnodeDrag_eq:
  "afterAnodeDrag =
     (stateAfter 0)\<lparr>ions := [\<lparr>pid = ''ion-1'', ptype = Ion, px = 0, py = 0, status = Active,
                                segment = None, progress = None\<rparr>],
                      electrons := [\<lparr>pid = ''ae-1'', ptype = AnodeElectron,
                                     px = fst anodeStop, py = snd anodeStop,
                                     status = Active, segment = Some AnodeWire,
                                     progress = Some lastSample\<rparr>],
                      anodeMass := 45, draggingElectronId := Some ''ae-1''\<rparr>"
  by (simp add: scenario_simps numeral_3_eq_3)

lemma afterCathodeDrag_eq:
  "afterCathodeDrag =
     (stateAfter 0)\<lparr>ions := [\<lparr>pid = ''ion-1'', ptype = Ion, px = 0, py = 0, status = Active,
                                segment = None, progress = None\<rparr>],
                      electrons := [\<lparr>pid = ''ce-1'', ptype = CathodeElectron,
                                     px = fst cathodeStop, py = snd cathodeStop,
                                     status = Active, segment = Some CathodeWire,
                                     progress = Some lastSample\<rparr>],
                      anodeMass := 45, draggingElectronId := Some ''ce-1''\<rparr>"
  by (simp add: scenario_simps numeral_eq_Suc)

lemma afterArrival_eq:
  "afterArrival =
     (stateAfter 0)\<lparr>ions := [\<lparr>pid = ''ion-1'', ptype = Ion, px = 0, py = 0, status = Active,
                                segment = None, progress = None\<rparr>],
                      electrons := [\<lparr>pid = ''ce-1'', ptype = CathodeElectron,
                                     px = fst cathodeStop, py = snd cathodeStop,
                                     status = Waiting, segment = Some CathodeWire,
                                     progress = Some 1\<rparr>],
                      anodeMass := 45\<rparr>"
  by (simp add: scenario_simps numeral_eq_Suc)

section \<open>Evaluating the further scenarios\<close>

lemma exec_collision:
  "exec collision =
     (stateAfter 0)\<lparr>ions := [\<lparr>pid = ''ion-1'', ptype = Ion, px = 0, py = 0, status = Active,
                                segment = None, progress = None\<rparr>,
                               \<lparr>pid = ''ion-1'', ptype = Ion, px = 0, py = 0, status = Active,
                                segment = None, progress = None\<rparr>],
                      electrons := [\<lparr>pid = ''ae-2'', ptype = AnodeElectron, px = 100, py = 300,
                                     status = Active, segment = Some AnodeWire,
                                     progress = Some 0\<rparr>,
                                    \<lparr>pid = ''ce-3'', ptype = CathodeElectron,
                                     px = fst cathodeStop, py = snd cathodeStop,
                                     status = Waiting, segment = Some CathodeWire,
                                     progress = Some 1\<rparr>],
                      anodeMass := 40\<rparr>"
  by (simp add: collision_def exec_append exec_prepare stateAfter_def handler_defs layout_simps
      decimal.simps)

lemma handle_dropIon1:
  "snd (handle dropIon1 (exec collision)) =
     (stateAfter 0)\<lparr>ions := [\<lparr>pid = ''ion-1'', ptype = Ion, px = 0, py = 0, status = Waiting,
                                segment = None, progress = None\<rparr>,
                               \<lparr>pid = ''ion-1'', ptype = Ion, px = 0, py = 0, status = Waiting,
                                segment = None, progress = None\<rparr>],
                      electrons := [\<lparr>pid = ''ae-2'', ptype = AnodeElectron, px = 100, py = 300,
                                     status = Active, segment = Some AnodeWire,
                                     progress = Some 0\<rparr>,
                                    \<lparr>pid = ''ce-3'', ptype = CathodeElectron,
                                     px = fst cathodeStop, py = snd cathodeStop,
                                     status = Waiting, segment = Some CathodeWire,
                                     progress = Some 1\<rparr>],
                      anodeMass := 40\<rparr>"
  by (simp add: exec_collision dropIon1_def stateAfter_def handleIonDragEnd_def
      outsideBounds_def insideRect_def getElectrolyteBounds_def hasWaitingElectron_def
      beakerRect_def cathodeRect_def)

lemma pairing_dropIon1:
  "snd (pairingEffect (snd (handle dropIon1 (exec collision)))) =
     (stateAfter 1)\<lparr>electrons := [\<lparr>pid = ''ae-2'', ptype = AnodeElectron, px = 100, py = 300,
                                     status = Active, segment = Some AnodeWire,
                                     progress = Some 0\<rparr>],
                      anodeMass := 40\<rparr>"
  by (simp add: handle_dropIon1 stateAfter_def pairingEffect_def pairs_def
      waitingIons_def waitingElectrons_def Let_def MASS_PER_UNIT_def TOTAL_PLATING_GOAL_def)

lemma arrival_state:
  assumes "k < 8"
  shows "snd (run (take 7 (cycle t)) (stateAfter k)) =
     (stateAfter k)\<lparr>ions := [newIon t],
                      electrons := [(newCathodeElectron t cathodePath)
                                      \<lparr>px := fst cathodeStop, py := snd cathodeStop,
                                        status := Waiting, progress := Some 1\<rparr>],
                      anodeMass := 45 - 5 * int k\<rparr>"
  using assms
  by (simp add: cycle_def stateAfter_def handler_defs layout_simps numeral_eq_Suc)

lemma drop_state:
  assumes "k < 8"
  shows "snd (handle (IonDragEnd (Some cathodeRect) (Some beakerRect) (''ion-'' @ decimal t) (768, 300))
               (snd (run (take 7 (cycle t)) (stateAfter k)))) =
     (stateAfter k)\<lparr>ions := [(newIon t)\<lparr>status := Waiting\<rparr>],
                      electrons := [(newCathodeElectron t cathodePath)
                                      \<lparr>px := fst cathodeStop, py := snd cathodeStop,
                                        status := Waiting, progress := Some 1\<rparr>],
                      anodeMass := 45 - 5 * int k\<rparr>"
  unfolding arrival_state [OF assms]
  by (simp add: stateAfter_def handleIonDragEnd_def newIon_def
      newCathodeElectron_def outsideBounds_def insideRect_def getElectrolyteBounds_def
      hasWaitingElectron_def beakerRect_def cathodeRect_def Let_def)

lemma arrived_eq:
  "k < 8 \<Longrightarrow> arrived k t =
     (stateAfter k)\<lparr>ions := [(newIon t)\<lparr>status := Waiting\<rparr>],
                      electrons := [(newCathodeElectron t cathodePath)
                                      \<lparr>px := fst cathodeStop, py := snd cathodeStop,
                                        status := Waiting, progress := Some 1\<rparr>],
                      anodeMass := 45 - 5 * int k\<rparr>"
  unfolding arrived_def by (rule drop_state)

lemma arrived_pairs: "k < 8 \<Longrightarrow> pairs (arrived k t) = 1"
  by (simp add: arrived_eq pairs_def waitingIons_def waitingElectrons_def stateAfter_def
      newIon_def newCathodeElectron_def Let_def)

lemma arrived_reachable:
  "k < 8 \<Longrightarrow> arrived k (Suc k) =
     snd (handle (IonDragEnd (Some cathodeRect) (Some beakerRect) (''ion-'' @ decimal (Suc k)) (768, 300))
            (exec (prepare @ cycles k @ take 7 (cycle (Suc k)))))"
  using exec_append [of "prepare @ cycles k" "take 7 (cycle (Suc k))"] exec_cycles [of k]
  by (simp add: arrived_def)

lemma feedbackOf_prepare:
  "feedbackOf prepare =
     [Sound PlayConnect, Toast AnodeConnected, Sound PlayConnect, Toast CathodeConnected]"
  by (simp add: feedbackOf_def prepare_def initialState_def handler_defs)

lemma wins_cycles:
  "k \<le> 8 \<Longrightarrow> count_list (feedbackOf (prepare @ cycles k)) (Sound PlayWin) = k - 5"
proof (induction k)
  case 0
  show ?case
    by (simp add: feedbackOf_prepare)
next
  case (Suc k)
  have "feedbackOf (prepare @ cycles (Suc k))
          = feedbackOf (prepare @ cycles k) @ fst (run (cycle (Suc k)) (exec (prepare @ cycles k)))"
    using feedbackOf_append [of "prepare @ cycles k" "cycle (Suc k)"] by simp
  also have "\<dots> = feedbackOf (prepare @ cycles k) @ cycleFeedback k"
    using Suc.prems by (simp add: exec_cycles run_cycle)
  finally show ?case
    using Suc by (auto simp: cycleFeedback_def)
qed

lemma run_cycle_reopened:
  "run (cycle t) ((stateAfter 6)\<lparr>showSuccess := False\<rparr>) = (cycleFeedback 6, stateAfter 7)"
  by (simp add: cycle_def stateAfter_def cycleFeedback_def handler_defs layout_simps)

lemma exec_goalReached: "exec goalReached = stateAfter 6"
  by (simp add: goalReached_def exec_cycles)

lemma exec_dialogClosed: "exec dialogClosed = (stateAfter 6)\<lparr>showSuccess := False\<rparr>"
  unfolding dialogClosed_def exec_append exec_goalReached
  by (simp add: step_snd pairingEffect_def waitingIons_def stateAfter_def)

lemma feedback_dialogClosed: "feedbackOf dialogClosed = feedbackOf goalReached"
  unfolding dialogClosed_def feedbackOf_append exec_goalReached
  by (simp add: step_def pairingEffect_def waitingIons_def stateAfter_def)

lemma exec_seventhPlated: "exec seventhPlated = stateAfter 7"
  unfolding seventhPlated_def exec_append exec_dialogClosed run_cycle_reopened
  by simp

lemma feedback_seventhPlated: "feedbackOf seventhPlated = feedbackOf goalReached @ cycleFeedback 6"
  unfolding seventhPlated_def feedbackOf_append exec_dialogClosed run_cycle_reopened
    feedback_dialogClosed
  by simp

section \<open>Evaluating the runs with two electrons of one id\<close>

lemma exec_waitingTwin:
  "exec waitingTwin =
     (stateAfter 0)\<lparr>ions := [\<lparr>pid = ''ion-1'', ptype = Ion, px = 0, py = 0, status = Active,
                                segment = None, progress = None\<rparr>,
                               \<lparr>pid = ''ion-2'', ptype = Ion, px = 0, py = 0, status = Active,
                                segment = None, progress = None\<rparr>],
                      electrons := [\<lparr>pid = ''ce-5'', ptype = CathodeElectron,
                                     px = fst cathodeStop, py = snd cathodeStop,
                                     status = Waiting, segment = Some CathodeWire,
                                     progress = Some 1\<rparr>,
                                    \<lparr>pid = ''ce-5'', ptype = CathodeElectron, px = 600, py = 50,
                                     status = Active, segment = Some CathodeWire,
                                     progress = Some 0\<rparr>],
                      anodeMass := 40\<rparr>"
  by (simp add: waitingTwin_def exec_append exec_prepare stateAfter_def handler_defs layout_simps
      decimal.simps)

lemma exec_activeTwin:
  "exec activeTwin =
     (stateAfter 0)\<lparr>ions := [\<lparr>pid = ''ion-1'', ptype = Ion, px = 0, py = 0, status = Active,
                                segment = None, progress = None\<rparr>,
                               \<lparr>pid = ''ion-2'', ptype = Ion, px = 0, py = 0, status = Active,
                                segment = None, progress = None\<rparr>],
                      electrons := [\<lparr>pid = ''ce-5'', ptype = CathodeElectron,
                                     px = fst cathodeStop, py = snd cathodeStop,
                                     status = Active, segment = Some CathodeWire,
                                     progress = Some lastSample\<rparr>,
                                    \<lparr>pid = ''ce-5'', ptype = CathodeElectron, px = 600, py = 50,
                                     status = Active, segment = Some CathodeWire,
                                     progress = Some 0\<rparr>],
                      anodeMass := 40\<rparr>"
  by (simp add: activeTwin_def exec_append exec_prepare stateAfter_def handler_defs layout_simps
      decimal.simps)

lemma released_twins:
  "snd (run pressAndRelease (exec waitingTwin)) = snd (run pressAndRelease (exec activeTwin))"
  "snd (run pressAndRelease (exec activeTwin)) =
     (stateAfter 0)\<lparr>ions := [\<lparr>pid = ''ion-1'', ptype = Ion, px = 0, py = 0, status = Active,
                                segment = None, progress = None\<rparr>,
                               \<lparr>pid = ''ion-2'', ptype = Ion, px = 0, py = 0, status = Active,
                                segment = None, progress = None\<rparr>],
                      electrons := [\<lparr>pid = ''ce-5'', ptype = CathodeElectron,
                                     px = fst cathodeStop, py = snd cathodeStop,
                                     status = Waiting, segment = Some CathodeWire,
                                     progress = Some 1\<rparr>,
                                    \<lparr>pid = ''ce-5'', ptype = CathodeElectron, px = 600, py = 50,
                                     status = Waiting, segment = Some CathodeWire,
                                     progress = Some 1\<rparr>],
                      anodeMass := 40\<rparr>"
  by (simp_all add: exec_waitingTwin exec_activeTwin pressAndRelease_def stateAfter_def
      handler_defs layout_simps)

section \<open>Evaluating the drag there and back\<close>

lemma afterPress_eq:
  "afterPress =
     (stateAfter 0)\<lparr>ions := [\<lparr>pid = ''ion-1'', ptype = Ion, px = 0, py = 0, status = Active,
                                segment = None, progress = None\<rparr>],
                      electrons := [\<lparr>pid = ''ae-1'', ptype = AnodeElectron, px = 100, py = 300,
                                     status = Active, segment = Some AnodeWire,
                                     progress = Some 0\<rparr>],
                      anodeMass := 45, draggingElectronId := Some ''ae-1''\<rparr>"
  by (simp add: afterPress_def scenario_simps numeral_2_eq_2)

lemma run_thereAndBack:
  "snd (run thereAndBack afterPress) =
     (stateAfter 0)\<lparr>ions := [\<lparr>pid = ''ion-1'', ptype = Ion, px = 0, py = 0, status = Active,
                                segment = None, progress = None\<rparr>],
                      electrons := [\<lparr>pid = ''ae-1'', ptype = AnodeElectron,
                                     px = fst anodeStop, py = snd anodeStop,
                                     status = Active, segment = Some AnodeWire,
                                     progress = Some lastSample\<rparr>],
                      anodeMass := 45, draggingElectronId := Some ''ae-1''\<rparr>"
  by (simp add: afterPress_eq thereAndBack_def stateAfter_def handler_defs layout_simps
      drag_anode_start)

lemma dragCalls_twoDrags:
  "dragCalls twoDrags afterSpawn =
     (stateAfter 0)\<lparr>ions := [\<lparr>pid = ''ion-1'', ptype = Ion, px = 0, py = 0, status = Active,
                                segment = None, progress = None\<rparr>],
                      electrons := [\<lparr>pid = ''ae-1'', ptype = AnodeElectron,
                                     px = fst anodeStop, py = snd anodeStop,
                                     status = Active, segment = Some AnodeWire,
                                     progress = Some lastSample\<rparr>],
                      anodeMass := 45\<rparr>"
  by (simp add: afterSpawn_eq twoDrags_def stateAfter_def handleElectronDrag_def dragElectron_def
      progressOr0_def Let_def layout_simps drag_anode_start)

section \<open>The balance is kept while ion ids are fresh\<close>

lemma map_pid_waiting:
  "map pid (map (\<lambda>p. if pid p = i then p\<lparr>status := Waiting\<rparr> else p) xs) = map pid xs"
  by (induction xs) simp_all

lemma balanced_handle:
  assumes "massBalance s" and "distinct (map pid (ions s))" and "freshSpawn ev s"
  shows "massBalance (snd (handle ev s)) \<and> distinct (map pid (ions (snd (handle ev s))))"
proof (cases ev)
  case (SpawnIon now1 now2)
  then show ?thesis
    using assms
    by (auto simp: spawnIon_def massBalance_def freshSpawn_def MASS_PER_UNIT_def)
next
  case (IonDragEnd cathode beaker i dropPoint)
  have "length (map (\<lambda>p. if pid p = i then p\<lparr>status := Waiting\<rparr> else p) (ions s))
          = length (ions s)"
    by simp
  then show ?thesis
    using assms IonDragEnd
    by (simp add: handleIonDragEnd_def massBalance_def map_pid_waiting del: map_map)
next
  case (ElectronPointerDown i)
  then show ?thesis
    using assms by (simp add: handleElectronPointerDown_def massBalance_def)
next
  case (SvgPointerMove svgPoint)
  have "ions (snd (handleSvgPointerMove svgPoint s)) = ions s"
    and "anodeMass (snd (handleSvgPointerMove svgPoint s)) = anodeMass s"
    and "cathodeMass (snd (handleSvgPointerMove svgPoint s)) = cathodeMass s"
    using handleSvgPointerMove_cases [of svgPoint s] by auto
  then show ?thesis
    using assms SvgPointerMove by (simp add: massBalance_def)
next
  case (SvgPointerUp now)
  then show ?thesis
    using assms
    by (simp add: handleSvgPointerUp_def handleElectronDragEnd_def massBalance_def
        split: option.splits)
next
  case SvgMouseLeave
  then show ?thesis
    using assms by (simp add: handleSvgMouseLeave_def massBalance_def split: option.splits)
next
  case ResetGame
  then show ?thesis
    by (simp add: resetGame_def massBalance_def)
qed (use assms in \<open>simp_all add: massBalance_def\<close>)

lemma balanced_pairingEffect:
  assumes "massBalance s" and "distinct (map pid (ions s))"
  shows "massBalance (snd (pairingEffect s)) \<and> distinct (map pid (ions (snd (pairingEffect s))))"
proof -
  have le: "pairs s \<le> length (filter (\<lambda>p. status p = Waiting) (ions s))"
    by (simp add: pairs_def waitingIons_def)
  have ions': "ions (snd (pairingEffect s)) = removeFirstWaiting (pairs s) (ions s)"
    using filter_used_exact [OF assms(2), of "pairs s"]
    by (simp only: pairingEffect_fields waitingIons_def)
  have len: "int (length (ions (snd (pairingEffect s)))) + int (pairs s) = int (length (ions s))"
    using length_removeFirstWaiting [OF le] ions' by (metis of_nat_add)
  have "distinct (map pid (ions (snd (pairingEffect s))))"
    using assms(2) by (simp only: pairingEffect_fields(4) distinct_map_filter)
  moreover have "massBalance (snd (pairingEffect s))"
    using assms(1) len
    by (simp add: massBalance_def pairingEffect_fields(1,2) MASS_PER_UNIT_def)
  ultimately show ?thesis
    by simp
qed

lemma balanced_step:
  assumes "massBalance s" and "distinct (map pid (ions s))" and "freshSpawn ev s"
  shows "massBalance (snd (step ev s)) \<and> distinct (map pid (ions (snd (step ev s))))"
  using balanced_pairingEffect [of "snd (handle ev s)"] balanced_handle [OF assms]
  by (simp add: step_snd)

lemma balanced_run:
  "freshRun evs s \<Longrightarrow> massBalance s \<Longrightarrow> distinct (map pid (ions s)) \<Longrightarrow>
     massBalance (snd (run evs s)) \<and> distinct (map pid (ions (snd (run evs s))))"
proof (induction evs arbitrary: s)
  case Nil
  then show ?case
    by simp
next
  case (Cons ev evs)
  have st: "massBalance (snd (step ev s)) \<and> distinct (map pid (ions (snd (step ev s))))"
    using balanced_step [of s ev] Cons.prems by simp
  have "freshRun evs (snd (step ev s))"
    using Cons.prems(1) by simp
  from Cons.IH [OF this] st show ?case
    by (simp only: run_Cons_snd)
qed

lemma freshRun_append:
  "freshRun (xs @ ys) s = (freshRun xs s \<and> freshRun ys (snd (run xs s)))"
  by (induction xs arbitrary: s) (simp_all add: run_Cons_snd del: run.simps(2))

lemma freshRun_prepare: "freshRun prepare initialState"
  by (simp add: prepare_def freshSpawn_def)

lemma freshRun_cycle: "k < 8 \<Longrightarrow> freshRun (cycle t) (stateAfter k)"
  by (simp add: cycle_def freshSpawn_def stateAfter_def)

section \<open>Claims\<close>

subsection \<open>Spawning at a depleted anode\<close>

lemma circuit_complete_when_depleted:
  "anodeMass (exec evs) \<le> 10 \<Longrightarrow> isAnodeConnected (exec evs) \<and> isCathodeConnected (exec evs)"
  using wellFormed_exec [of evs]
  by (auto simp: wellFormed_def circuitInv_def ANODE_START_MASS_def)

text \<open>
  C4. In every reachable state with \<open>anodeMass \<le> 10\<close>, \<open>spawnIon\<close> signals
  ``anode depleted'' and returns the state as it was; in any state at all with
  \<open>anodeMass \<le> 10\<close> it changes nothing. With the circuit complete, \<open>anodeMass > 10\<close>
  and fewer than 5 active particles it signals the pop, takes exactly 5 from the anode
  mass and appends one active ion and one active electron on the anode wire at
  progress 0.
\<close>

theorem spawnIon_depleted_or_success:
  "(anodeMass (exec evs) \<le> 10 \<longrightarrow>
      spawnIon now1 now2 (exec evs) = ([Sound PlayError, Toast AnodeDepleted], exec evs))
   \<and> (anodeMass s \<le> 10 \<longrightarrow> snd (spawnIon now1 now2 s) = s)
   \<and> (isAnodeConnected s \<and> isCathodeConnected s \<and> 10 < anodeMass s \<and> activeParticles s < 5 \<longrightarrow>
        spawnIon now1 now2 s =
          ([Sound PlayPop],
           s\<lparr>ions := ions s @ [newIon now1],
             electrons := electrons s @ [newAnodeElectron now2 (anodeWirePoints s)],
             anodeMass := anodeMass s - 5\<rparr>)
        \<and> status (newIon now1) = Active
        \<and> status (newAnodeElectron now2 (anodeWirePoints s)) = Active
        \<and> segment (newAnodeElectron now2 (anodeWirePoints s)) = Some AnodeWire
        \<and> progress (newAnodeElectron now2 (anodeWirePoints s)) = Some 0)"
proof (intro conjI impI)
  assume low: "anodeMass (exec evs) \<le> 10"
  then show "spawnIon now1 now2 (exec evs) = ([Sound PlayError, Toast AnodeDepleted], exec evs)"
    using circuit_complete_when_depleted [OF low] by (simp add: spawnIon_def)
next
  assume "anodeMass s \<le> 10"
  then show "snd (spawnIon now1 now2 s) = s"
    by (simp add: spawnIon_def)
next
  assume ok: "isAnodeConnected s \<and> isCathodeConnected s \<and> 10 < anodeMass s \<and> activeParticles s < 5"
  then show "spawnIon now1 now2 s =
          ([Sound PlayPop],
           s\<lparr>ions := ions s @ [newIon now1],
             electrons := electrons s @ [newAnodeElectron now2 (anodeWirePoints s)],
             anodeMass := anodeMass s - 5\<rparr>)"
    by (simp add: spawnIon_def MASS_PER_UNIT_def)
qed (simp_all add: newIon_def newAnodeElectron_def Let_def)

theorem spawnIon_depleted_or_success_witness:
  "anodeMass (exec (prepare @ cycles 8)) = 10
   \<and> spawnIon 9 9 (exec (prepare @ cycles 8))
       = ([Sound PlayError, Toast AnodeDepleted], exec (prepare @ cycles 8))
   \<and> anodeMass (snd (spawnIon 9 9 (exec (prepare @ cycles 8)))) = 10
   \<and> isAnodeConnected (stateAfter 0) \<and> isCathodeConnected (stateAfter 0)
   \<and> 10 < anodeMass (stateAfter 0) \<and> activeParticles (stateAfter 0) < 5
   \<and> spawnIon 1 1 (stateAfter 0) =
        ([Sound PlayPop],
         (stateAfter 0)\<lparr>ions := [newIon 1], electrons := [newAnodeElectron 1 anodePath],
                          anodeMass := 45\<rparr>)"
  using spawnIon_depleted_or_success [of "prepare @ cycles 8" 9 9 "exec (prepare @ cycles 8)"]
    spawnIon_depleted_or_success [of "[]" 1 1 "stateAfter 0"]
  by (simp add: exec_cycles stateAfter_def activeParticles_def)

subsection \<open>Releasing an electron\<close>

lemma anode_electron_id:
  assumes "find (\<lambda>e. pid e = i) (electrons (exec evs)) = Some e" and "segment e = Some AnodeWire"
  shows "take 3 i = ''ae-''"
proof -
  have "e \<in> set (electrons (exec evs))" and "pid e = i"
    using find_SomeD [OF assms(1)] by simp_all
  moreover have "list_all electronInv (electrons (exec evs))"
    using wellFormed_exec [of evs] by (simp add: wellFormed_def)
  ultimately show ?thesis
    using assms(2) by (auto simp: list_all_iff electronInv_def)
qed

text \<open>
  C5. The release acts on the first electron that has the id, and then rewrites every
  electron that has the id. On the run \<open>activeTwin\<close> two hand-offs have read the same
  clock value (the defect of C9), so two electrons on the cathode wire have the id
  \<open>ce-5\<close>: the first is at the last sample, the second at progress 0. A press on the
  second and a release call \<open>handleElectronDragEnd\<close> with \<open>ce-5\<close>. For the electron at
  progress 0 the claim says that nothing changes; it becomes waiting, with progress 1.
\<close>

theorem completeElectronDrag_changes_twin:
  "map summary (electrons (exec activeTwin))
     = [(''ce-5'', Active, Some CathodeWire, Some lastSample),
        (''ce-5'', Active, Some CathodeWire, Some 0)]
   \<and> 0.95 \<le> lastSample \<and> lastSample < 1
   \<and> map summary (electrons (snd (handleElectronDragEnd ''ce-5'' 7 (exec activeTwin))))
     = [(''ce-5'', Waiting, Some CathodeWire, Some 1),
        (''ce-5'', Waiting, Some CathodeWire, Some 1)]
   \<and> map summary (electrons (exec (activeTwin @ pressAndRelease)))
     = [(''ce-5'', Waiting, Some CathodeWire, Some 1),
        (''ce-5'', Waiting, Some CathodeWire, Some 1)]"
proof -
  have "snd (handleElectronDragEnd ''ce-5'' 7 (exec activeTwin))
          = (snd (run pressAndRelease (exec activeTwin)))"
    unfolding released_twins(2)
    by (simp add: exec_activeTwin stateAfter_def handler_defs layout_simps)
  then show ?thesis
    unfolding exec_append released_twins(2)
    by (simp add: exec_activeTwin summary_def stateAfter_def lastSample_def)
qed

text \<open>
  What the release does, by the first electron that has the id. On the anode wire with
  progress at least the double 0.95, every electron with that id is removed and a new
  active electron is appended, on the cathode wire at progress 0, at the first point of
  the cathode path; in a reachable state its id differs from the given one. On the
  cathode wire with progress at least the double 0.95, every electron with that id
  becomes waiting with progress 1. In every other case (no such electron, progress
  below, no segment) nothing changes and nothing is signalled. (The double 0.95 is
  just below 0.95, \<open>threshold_below\<close>; no sample of the drag lies between the two,
  \<open>threshold_samples\<close>.)
\<close>

lemma threshold_samples: "\<forall>q \<in> set samples. (toDouble 0.95 \<le> q) = (0.95 \<le> q)"
  unfolding threshold by (simp add: samples_eq sampleNumerators_def)

lemma completeElectronDrag_cases:
  "(find (\<lambda>e. pid e = i) (electrons s) = None \<longrightarrow> handleElectronDragEnd i now s = ([], s))
   \<and> (find (\<lambda>e. pid e = i) (electrons s) = Some e \<and> segment e = Some AnodeWire
        \<and> toDouble 0.95 \<le> progressOr0 e \<longrightarrow>
        snd (handleElectronDragEnd i now s) =
          s\<lparr>electrons := filter (\<lambda>e'. pid e' \<noteq> i) (electrons s)
                           @ [newCathodeElectron now (cathodeWirePoints s)]\<rparr>
        \<and> e \<notin> set (electrons (snd (handleElectronDragEnd i now s)))
        \<and> (s = exec evs \<longrightarrow> pid (newCathodeElectron now (cathodeWirePoints s)) \<noteq> i)
        \<and> status (newCathodeElectron now (cathodeWirePoints s)) = Active
        \<and> segment (newCathodeElectron now (cathodeWirePoints s)) = Some CathodeWire
        \<and> progress (newCathodeElectron now (cathodeWirePoints s)) = Some 0
        \<and> (cathodeWirePoints s \<noteq> [] \<longrightarrow>
             (px (newCathodeElectron now (cathodeWirePoints s)),
              py (newCathodeElectron now (cathodeWirePoints s))) = hd (cathodeWirePoints s)))
   \<and> (find (\<lambda>e. pid e = i) (electrons s) = Some e \<and> segment e = Some CathodeWire
        \<and> toDouble 0.95 \<le> progressOr0 e \<longrightarrow>
        snd (handleElectronDragEnd i now s) =
          s\<lparr>electrons :=
              map (\<lambda>e'. if pid e' = i then e'\<lparr>status := Waiting, progress := Some 1\<rparr> else e')
                (electrons s)\<rparr>)
   \<and> (find (\<lambda>e. pid e = i) (electrons s) = Some e
        \<and> (progressOr0 e < toDouble 0.95 \<or> segment e = None) \<longrightarrow>
        handleElectronDragEnd i now s = ([], s))"
proof (intro conjI impI)
  assume "find (\<lambda>e. pid e = i) (electrons s) = None"
  then show "handleElectronDragEnd i now s = ([], s)"
    by (simp add: handleElectronDragEnd_def)
next
  assume h: "find (\<lambda>e. pid e = i) (electrons s) = Some e \<and> segment e = Some AnodeWire
        \<and> toDouble 0.95 \<le> progressOr0 e"
  then show res: "snd (handleElectronDragEnd i now s) =
          s\<lparr>electrons := filter (\<lambda>e'. pid e' \<noteq> i) (electrons s)
                           @ [newCathodeElectron now (cathodeWirePoints s)]\<rparr>"
    by (simp add: handleElectronDragEnd_def)
  have id: "pid e = i"
    using find_SomeD [of "\<lambda>e. pid e = i" "electrons s" e] h by simp
  have "e \<noteq> newCathodeElectron now (cathodeWirePoints s)"
    using h by (auto simp: newCathodeElectron_def Let_def)
  then show "e \<notin> set (electrons (snd (handleElectronDragEnd i now s)))"
    using id by (simp add: res)
  show "pid (newCathodeElectron now (cathodeWirePoints s)) \<noteq> i" if "s = exec evs"
  proof -
    have "take 3 i = ''ae-''"
      using anode_electron_id [of i evs e] h that by simp
    moreover have "take 3 (pid (newCathodeElectron now (cathodeWirePoints s))) = ''ce-''"
      by (simp add: newCathodeElectron_def Let_def)
    ultimately show ?thesis
      by auto
  qed
  show "(px (newCathodeElectron now (cathodeWirePoints s)),
         py (newCathodeElectron now (cathodeWirePoints s))) = hd (cathodeWirePoints s)"
    if "cathodeWirePoints s \<noteq> []"
    using that by (simp add: newCathodeElectron_def Let_def hd_conv_nth)
next
  assume "find (\<lambda>e. pid e = i) (electrons s) = Some e \<and> segment e = Some CathodeWire
        \<and> toDouble 0.95 \<le> progressOr0 e"
  then show "snd (handleElectronDragEnd i now s) =
          s\<lparr>electrons :=
              map (\<lambda>e'. if pid e' = i then e'\<lparr>status := Waiting, progress := Some 1\<rparr> else e')
                (electrons s)\<rparr>"
    by (simp add: handleElectronDragEnd_def)
next
  assume "find (\<lambda>e. pid e = i) (electrons s) = Some e
        \<and> (progressOr0 e < toDouble 0.95 \<or> segment e = None)"
  then show "handleElectronDragEnd i now s = ([], s)"
    by (auto simp: handleElectronDragEnd_def)
qed (simp_all add: newCathodeElectron_def Let_def)

lemma completeElectronDrag_cases_example:
  "find (\<lambda>e. pid e = ''ae-1'') (electrons afterAnodeDrag)
     = Some \<lparr>pid = ''ae-1'', ptype = AnodeElectron, px = fst anodeStop, py = snd anodeStop,
             status = Active, segment = Some AnodeWire, progress = Some lastSample\<rparr>
   \<and> afterAnodeDrag = exec (prepare @ take 3 (cycle 1))
   \<and> snd (handleElectronDragEnd ''ae-1'' 1 afterAnodeDrag)
       = afterAnodeDrag\<lparr>electrons :=
           filter (\<lambda>e'. pid e' \<noteq> ''ae-1'') (electrons afterAnodeDrag)
           @ [newCathodeElectron 1 (cathodeWirePoints afterAnodeDrag)]\<rparr>
   \<and> pid (newCathodeElectron 1 (cathodeWirePoints afterAnodeDrag)) \<noteq> ''ae-1''
   \<and> find (\<lambda>e. pid e = ''ce-1'') (electrons afterCathodeDrag)
     = Some \<lparr>pid = ''ce-1'', ptype = CathodeElectron, px = fst cathodeStop,
             py = snd cathodeStop, status = Active, segment = Some CathodeWire,
             progress = Some lastSample\<rparr>
   \<and> snd (handleElectronDragEnd ''ce-1'' 1 afterCathodeDrag)
       = afterCathodeDrag\<lparr>electrons :=
           map (\<lambda>e'. if pid e' = ''ce-1'' then e'\<lparr>status := Waiting, progress := Some 1\<rparr>
                      else e') (electrons afterCathodeDrag)\<rparr>
   \<and> find (\<lambda>e. pid e = ''ae-1'') (electrons afterSpawn)
     = Some \<lparr>pid = ''ae-1'', ptype = AnodeElectron, px = 100, py = 300, status = Active,
             segment = Some AnodeWire, progress = Some 0\<rparr>
   \<and> handleElectronDragEnd ''ae-1'' 1 afterSpawn = ([], afterSpawn)
   \<and> find (\<lambda>e. pid e = ''ae-1'') (electrons (stateAfter 0)) = None
   \<and> handleElectronDragEnd ''ae-1'' 1 (stateAfter 0) = ([], stateAfter 0)"
proof -
  let ?a = "\<lparr>pid = ''ae-1'', ptype = AnodeElectron, px = fst anodeStop, py = snd anodeStop,
             status = Active, segment = Some AnodeWire, progress = Some lastSample\<rparr>"
  let ?c = "\<lparr>pid = ''ce-1'', ptype = CathodeElectron, px = fst cathodeStop,
             py = snd cathodeStop, status = Active, segment = Some CathodeWire,
             progress = Some lastSample\<rparr>"
  let ?b = "\<lparr>pid = ''ae-1'', ptype = AnodeElectron, px = 100, py = 300, status = Active,
             segment = Some AnodeWire, progress = Some (0::real)\<rparr>"
  have fa: "find (\<lambda>e. pid e = ''ae-1'') (electrons afterAnodeDrag) = Some ?a"
    by (simp add: afterAnodeDrag_eq)
  have ha: "find (\<lambda>e. pid e = ''ae-1'') (electrons afterAnodeDrag) = Some ?a
            \<and> segment ?a = Some AnodeWire \<and> toDouble 0.95 \<le> progressOr0 ?a"
    using fa threshold_facts(1) by (simp add: progressOr0_def)
  have fc: "find (\<lambda>e. pid e = ''ce-1'') (electrons afterCathodeDrag) = Some ?c"
    by (simp add: afterCathodeDrag_eq)
  have hc: "find (\<lambda>e. pid e = ''ce-1'') (electrons afterCathodeDrag) = Some ?c
            \<and> segment ?c = Some CathodeWire \<and> toDouble 0.95 \<le> progressOr0 ?c"
    using fc threshold_facts(1) by (simp add: progressOr0_def)
  have fb: "find (\<lambda>e. pid e = ''ae-1'') (electrons afterSpawn) = Some ?b"
    by (simp add: afterSpawn_eq)
  have hb: "find (\<lambda>e. pid e = ''ae-1'') (electrons afterSpawn) = Some ?b
            \<and> (progressOr0 ?b < toDouble 0.95 \<or> segment ?b = None)"
    using fb threshold_facts(3) by (simp add: progressOr0_def)
  have fn: "find (\<lambda>e. pid e = ''ae-1'') (electrons (stateAfter 0)) = None"
    by (simp add: stateAfter_def)
  note ra = completeElectronDrag_cases
      [of "''ae-1''" afterAnodeDrag 1 ?a "prepare @ take 3 (cycle 1)",
       THEN conjunct2, THEN conjunct1, THEN mp, OF ha]
  note rc = completeElectronDrag_cases
      [of "''ce-1''" afterCathodeDrag 1 ?c "[]",
       THEN conjunct2, THEN conjunct2, THEN conjunct1, THEN mp, OF hc]
  note rb = completeElectronDrag_cases
      [of "''ae-1''" afterSpawn 1 ?b "[]",
       THEN conjunct2, THEN conjunct2, THEN conjunct2, THEN mp, OF hb]
  note rn = completeElectronDrag_cases
      [of "''ae-1''" "stateAfter 0" 1 ?a "[]", THEN conjunct1, THEN mp, OF fn]
  note fresh = ra [THEN conjunct2, THEN conjunct2, THEN conjunct1, THEN mp, OF afterAnodeDrag_def]
  show ?thesis
    by (intro conjI fa afterAnodeDrag_def ra [THEN conjunct1] fresh fc rc fb rb fn rn)
qed

subsection \<open>Progress under drag updates\<close>

text \<open>
  C6. No drag update lowers the progress of an electron.

  \<^item> From every reachable state, a run of the events of a drag that is not released
    (press, moves, leave, and recomputations of the wire paths) keeps every electron
    in the registry, with its identity, status and segment, and with a progress that
    is at least what it was.

  \<^item> So does every sequence of calls of \<open>handleElectronDrag\<close>, from every state.

  \<^item> A pointer move writes to every electron with the dragged id the progress
    \<open>max(currentProgress, b)\<close> and the point of the path there, where
    \<open>currentProgress\<close> is the progress of the first electron with that id and \<open>b\<close> is
    a sample of least distance to the pointer on that electron's path;
    \<open>handleElectronDrag\<close> does the same to each electron with the id, from its own
    progress.

  \<^item> \<open>getProgressFromDrag\<close> returns \<open>max(currentProgress, b)\<close> for such a sample on
    every path that is not empty.

  \<^item> The samples are the 100 values that the loop variable takes: the first is 0,
    the \<open>k\<close>-th is \<open>k / 100\<close> up to a rounding error below \<open>10\<^sup>-\<^sup>1\<^sup>5\<close>, and the last
    is below 1 (0.9900000000000007): the loop ends before it tries 1.
\<close>

theorem electron_progress_nondecreasing:
  "(list_all isDragUpdate evs \<longrightarrow>
      list_all2 advanced (electrons (exec evs0)) (electrons (snd (run evs (exec evs0)))))
   \<and> list_all2 advanced (electrons s) (electrons (dragCalls calls s))
   \<and> (draggingElectronId s = Some i \<and> find (\<lambda>el. pid el = i) (electrons s) = Some e
        \<and> points = (if segment e = Some AnodeWire then anodeWirePoints s
                     else cathodeWirePoints s)
        \<and> points \<noteq> [] \<longrightarrow>
        (\<exists>b \<in> set samples. \<exists>newPos.
            (\<forall>q \<in> set samples. distTo points x y b \<le> distTo points x y q)
            \<and> getPointOnPath points (max (progressOr0 e) b) = Some newPos
            \<and> handleSvgPointerMove (x, y) s
                = ([], s\<lparr>electrons :=
                           map (\<lambda>el. if pid el = i
                                     then el\<lparr>px := fst newPos, py := snd newPos,
                                             progress := Some (max (progressOr0 e) b)\<rparr>
                                     else el)
                             (electrons s)\<rparr>)))
   \<and> handleElectronDrag i (Some (x, y)) s
        = ([], s\<lparr>electrons :=
                   map (dragElectron (anodeWirePoints s) (cathodeWirePoints s) i x y)
                     (electrons s)\<rparr>)
   \<and> (pid e = i \<and> points = (if segment e = Some AnodeWire then a else c)
        \<and> points \<noteq> [] \<longrightarrow>
        (\<exists>b \<in> set samples. \<exists>newPos.
            (\<forall>q \<in> set samples. distTo points x y b \<le> distTo points x y q)
            \<and> getPointOnPath points (max (progressOr0 e) b) = Some newPos
            \<and> dragElectron a c i x y e
                = e\<lparr>px := fst newPos, py := snd newPos,
                    progress := Some (max (progressOr0 e) b)\<rparr>))
   \<and> (points \<noteq> [] \<longrightarrow>
        (\<exists>b \<in> set samples.
            (\<forall>q \<in> set samples. distTo points x y b \<le> distTo points x y q)
            \<and> getProgressFromDrag points x y cur = Some (max cur b)))
   \<and> length samples = 100 \<and> hd samples = 0 \<and> last samples = lastSample \<and> lastSample < 1
   \<and> (k < 100 \<longrightarrow> \<bar>samples ! k - real k / 100\<bar> < 1 / 10 ^ 15)"
proof (intro conjI impI)
  assume "list_all isDragUpdate evs"
  then show "list_all2 advanced (electrons (exec evs0)) (electrons (snd (run evs (exec evs0))))"
  proof (rule run_drag_updates)
    show "progressInv (exec evs0)"
      by (rule progressInv_exec)
    show "pairs (exec evs0) = 0"
    proof (cases evs0 rule: rev_cases)
      case Nil
      then show ?thesis
        by (simp add: exec_def initialState_def pairs_def waitingIons_def)
    next
      case (snoc evs1 ev)
      then show ?thesis
        by (simp add: exec_def run_append_snd run_Cons_snd step_exhaustive del: run.simps(2))
    qed
  qed
next
  show "list_all2 advanced (electrons s) (electrons (dragCalls calls s))"
    by (rule dragCalls_advanced)
next
  assume h: "draggingElectronId s = Some i \<and> find (\<lambda>el. pid el = i) (electrons s) = Some e
        \<and> points = (if segment e = Some AnodeWire then anodeWirePoints s
                     else cathodeWirePoints s)
        \<and> points \<noteq> []"
  then have ne: "points \<noteq> []"
    by blast
  obtain b where b: "b \<in> set samples"
    and least: "\<forall>q \<in> set samples. distTo points x y b \<le> distTo points x y q"
    and r: "getProgressFromDrag points x y (progressOr0 e) = Some (max (progressOr0 e) b)"
    using getProgressFromDrag_nearest [OF ne, of x y "progressOr0 e"] by blast
  obtain newPos where pos: "getPointOnPath points (max (progressOr0 e) b) = Some newPos"
    using getPointOnPath_nonempty [OF ne] by blast
  have pts: "(if segment e = Some AnodeWire then anodeWirePoints s else cathodeWirePoints s)
               = points"
    using h by blast
  have d: "draggingElectronId s = Some i" and f: "find (\<lambda>el. pid el = i) (electrons s) = Some e"
    using h by blast+
  have "handleSvgPointerMove (x, y) s
          = ([], s\<lparr>electrons :=
                     map (\<lambda>el. if pid el = i
                               then el\<lparr>px := fst newPos, py := snd newPos,
                                       progress := Some (max (progressOr0 e) b)\<rparr>
                               else el)
                       (electrons s)\<rparr>)"
    using ne r pos by (simp add: handleSvgPointerMove_def Let_def d f pts)
  then show "\<exists>b \<in> set samples. \<exists>newPos.
            (\<forall>q \<in> set samples. distTo points x y b \<le> distTo points x y q)
            \<and> getPointOnPath points (max (progressOr0 e) b) = Some newPos
            \<and> handleSvgPointerMove (x, y) s
                = ([], s\<lparr>electrons :=
                           map (\<lambda>el. if pid el = i
                                     then el\<lparr>px := fst newPos, py := snd newPos,
                                             progress := Some (max (progressOr0 e) b)\<rparr>
                                     else el)
                             (electrons s)\<rparr>)"
    using b least pos by blast
next
  show "handleElectronDrag i (Some (x, y)) s
        = ([], s\<lparr>electrons :=
                   map (dragElectron (anodeWirePoints s) (cathodeWirePoints s) i x y)
                     (electrons s)\<rparr>)"
    by (simp add: handleElectronDrag_def)
next
  assume h: "pid e = i \<and> points = (if segment e = Some AnodeWire then a else c)
        \<and> points \<noteq> []"
  then have ne: "points \<noteq> []"
    by blast
  obtain b where b: "b \<in> set samples"
    and least: "\<forall>q \<in> set samples. distTo points x y b \<le> distTo points x y q"
    and r: "getProgressFromDrag points x y (progressOr0 e) = Some (max (progressOr0 e) b)"
    using getProgressFromDrag_nearest [OF ne, of x y "progressOr0 e"] by blast
  obtain newPos where pos: "getPointOnPath points (max (progressOr0 e) b) = Some newPos"
    using getPointOnPath_nonempty [OF ne] by blast
  have pts: "(if segment e = Some AnodeWire then a else c) = points"
    using h by blast
  have id: "pid e = i"
    using h by blast
  have "dragElectron a c i x y e
          = e\<lparr>px := fst newPos, py := snd newPos, progress := Some (max (progressOr0 e) b)\<rparr>"
    using ne r pos by (simp add: dragElectron_def Let_def id pts)
  then show "\<exists>b \<in> set samples. \<exists>newPos.
            (\<forall>q \<in> set samples. distTo points x y b \<le> distTo points x y q)
            \<and> getPointOnPath points (max (progressOr0 e) b) = Some newPos
            \<and> dragElectron a c i x y e
                = e\<lparr>px := fst newPos, py := snd newPos,
                    progress := Some (max (progressOr0 e) b)\<rparr>"
    using b least pos by blast
next
  assume "points \<noteq> []"
  then show "\<exists>b \<in> set samples.
            (\<forall>q \<in> set samples. distTo points x y b \<le> distTo points x y q)
            \<and> getProgressFromDrag points x y cur = Some (max cur b)"
    using getProgressFromDrag_nearest [of points x y cur] by blast
next
  assume "k < 100"
  then show "\<bar>samples ! k - real k / 100\<bar> < 1 / 10 ^ 15"
    by (rule samples_uniform)
qed (simp_all add: length_samples hd_samples last_samples lastSample_facts)

theorem electron_progress_nondecreasing_witness:
  "list_all isDragUpdate thereAndBack
   \<and> list_all2 advanced (electrons (exec (prepare @ take 2 (cycle 1))))
        (electrons (snd (run thereAndBack (exec (prepare @ take 2 (cycle 1))))))
   \<and> map summary (electrons (exec (prepare @ take 2 (cycle 1))))
        = [(''ae-1'', Active, Some AnodeWire, Some 0)]
   \<and> map summary (electrons (snd (run thereAndBack (exec (prepare @ take 2 (cycle 1))))))
        = [(''ae-1'', Active, Some AnodeWire, Some lastSample)]
   \<and> list_all2 advanced (electrons afterSpawn) (electrons (dragCalls twoDrags afterSpawn))
   \<and> map summary (electrons (dragCalls twoDrags afterSpawn))
        = [(''ae-1'', Active, Some AnodeWire, Some lastSample)]
   \<and> draggingElectronId afterPress = Some ''ae-1''
   \<and> find (\<lambda>el. pid el = ''ae-1'') (electrons afterPress) = Some (newAnodeElectron 1 anodePath)
   \<and> anodePath = (if segment (newAnodeElectron 1 anodePath) = Some AnodeWire
                   then anodeWirePoints afterPress else cathodeWirePoints afterPress)
   \<and> anodePath \<noteq> []
   \<and> (\<exists>b \<in> set samples. \<exists>newPos.
         (\<forall>q \<in> set samples. distTo anodePath 400 50 b \<le> distTo anodePath 400 50 q)
         \<and> getPointOnPath anodePath (max (progressOr0 (newAnodeElectron 1 anodePath)) b)
             = Some newPos
         \<and> handleSvgPointerMove (400, 50) afterPress
             = ([], afterPress\<lparr>electrons :=
                      map (\<lambda>el. if pid el = ''ae-1''
                                then el\<lparr>px := fst newPos, py := snd newPos,
                                        progress :=
                                          Some (max (progressOr0 (newAnodeElectron 1 anodePath)) b)\<rparr>
                                else el)
                        (electrons afterPress)\<rparr>))
   \<and> map summary (electrons (snd (handleSvgPointerMove (400, 50) afterPress)))
        = [(''ae-1'', Active, Some AnodeWire, Some lastSample)]
   \<and> pid (newAnodeElectron 1 anodePath) = ''ae-1''
   \<and> (\<exists>b \<in> set samples. \<exists>newPos.
         (\<forall>q \<in> set samples. distTo anodePath 400 50 b \<le> distTo anodePath 400 50 q)
         \<and> getPointOnPath anodePath (max (progressOr0 (newAnodeElectron 1 anodePath)) b)
             = Some newPos
         \<and> dragElectron anodePath cathodePath ''ae-1'' 400 50 (newAnodeElectron 1 anodePath)
             = (newAnodeElectron 1 anodePath)
                 \<lparr>px := fst newPos, py := snd newPos,
                  progress := Some (max (progressOr0 (newAnodeElectron 1 anodePath)) b)\<rparr>)
   \<and> (\<exists>b \<in> set samples.
         (\<forall>q \<in> set samples. distTo anodePath 400 50 b \<le> distTo anodePath 400 50 q)
         \<and> getProgressFromDrag anodePath 400 50 0 = Some (max 0 b))
   \<and> getProgressFromDrag anodePath 400 50 0 = Some lastSample
   \<and> (99::nat) < 100
   \<and> \<bar>samples ! 99 - real 99 / 100\<bar> < 1 / 10 ^ 15"
proof -
  let ?e = "newAnodeElectron 1 anodePath"
  note t = electron_progress_nondecreasing
      [where evs = thereAndBack and ?evs0.0 = "prepare @ take 2 (cycle 1)" and s = afterPress
         and calls = twoDrags and i = "''ae-1''" and e = ?e and points = anodePath
         and x = 400 and y = 50 and a = anodePath and c = cathodePath and cur = 0 and k = 99]
  have h1: "list_all isDragUpdate thereAndBack"
    by (simp add: thereAndBack_def)
  have e: "?e = \<lparr>pid = ''ae-1'', ptype = AnodeElectron, px = 100, py = 300, status = Active,
                 segment = Some AnodeWire, progress = Some 0\<rparr>"
    by (simp add: newAnodeElectron_def Let_def path_facts decimal.simps)
  have d: "draggingElectronId afterPress = Some ''ae-1''"
    by (simp add: afterPress_eq)
  have f: "find (\<lambda>el. pid el = ''ae-1'') (electrons afterPress) = Some ?e"
    unfolding e by (simp add: afterPress_eq)
  have p: "anodePath = (if segment ?e = Some AnodeWire
                        then anodeWirePoints afterPress else cathodeWirePoints afterPress)"
    unfolding e by (simp add: afterPress_eq stateAfter_def)
  have ne: "anodePath \<noteq> []"
    by (simp add: path_facts)
  have id: "pid ?e = ''ae-1''"
    unfolding e by simp
  have p2: "anodePath = (if segment ?e = Some AnodeWire then anodePath else cathodePath)"
    unfolding e by simp
  have k: "(99::nat) < 100"
    by simp
  note c1 = t [THEN conjunct1, THEN mp, OF h1]
  note r1 = t [THEN conjunct2]
  note c2 = electron_progress_nondecreasing
      [where s = afterSpawn and calls = twoDrags, THEN conjunct2, THEN conjunct1]
  note r2 = r1 [THEN conjunct2]
  note c3 = r2 [THEN conjunct1, THEN mp, OF conjI [OF d conjI [OF f conjI [OF p ne]]]]
  note r3 = r2 [THEN conjunct2]
  note r4 = r3 [THEN conjunct2]
  note c5 = r4 [THEN conjunct1, THEN mp, OF conjI [OF id conjI [OF p2 ne]]]
  note r5 = r4 [THEN conjunct2]
  note c6 = r5 [THEN conjunct1, THEN mp, OF ne]
  note r6 = r5 [THEN conjunct2]
  note c11 = r6 [THEN conjunct2, THEN conjunct2, THEN conjunct2, THEN conjunct2, THEN mp, OF k]
  have s0: "map summary (electrons (exec (prepare @ take 2 (cycle 1))))
              = [(''ae-1'', Active, Some AnodeWire, Some 0)]"
    unfolding afterPress_def [symmetric] by (simp add: afterPress_eq summary_def)
  have s1: "map summary (electrons (snd (run thereAndBack (exec (prepare @ take 2 (cycle 1))))))
              = [(''ae-1'', Active, Some AnodeWire, Some lastSample)]"
    unfolding afterPress_def [symmetric] run_thereAndBack by (simp add: summary_def)
  have s2: "map summary (electrons (dragCalls twoDrags afterSpawn))
              = [(''ae-1'', Active, Some AnodeWire, Some lastSample)]"
    unfolding dragCalls_twoDrags by (simp add: summary_def)
  have s3: "map summary (electrons (snd (handleSvgPointerMove (400, 50) afterPress)))
              = [(''ae-1'', Active, Some AnodeWire, Some lastSample)]"
    by (simp add: afterPress_eq stateAfter_def summary_def handleSvgPointerMove_def
        progressOr0_def Let_def layout_simps)
  have g: "getProgressFromDrag anodePath 400 50 0 = Some lastSample"
    by (simp add: drag_anode_end lastSample_facts)
  show ?thesis
    by (intro conjI h1 c1 s0 s1 c2 s2 d f p ne c3 s3 id c5 c6 g k c11)
qed

subsection \<open>Dropping an ion\<close>

text \<open>
  C7, as stated, fails: a drop point inside the cathode's rectangle may lie outside
  the electrolyte bounds (the rectangle starts 24 below the beaker's top, the bounds 60
  below it). The bounds are checked first, so the ion stays active although an
  electron is waiting.
\<close>

theorem ion_drop_outside_bounds_counterexample:
  "insideRect (Some cathodeRect) (768, 240)
   \<and> hasWaitingElectron afterArrival
   \<and> map pid (ions afterArrival) = [''ion-1'']
   \<and> map status (ions afterArrival) = [Active]
   \<and> handleIonDragEnd (Some cathodeRect) (Some beakerRect) ''ion-1'' (768, 240)
        afterArrival
      = ([Sound PlayError, Toast StayInSolution],
         afterArrival\<lparr>ionResetKey := 1\<rparr>)
   \<and> map status (ions (snd (handleIonDragEnd (Some cathodeRect) (Some beakerRect) ''ion-1''
                               (768, 240) afterArrival))) = [Active]"
  by (simp add: afterArrival_eq stateAfter_def handleIonDragEnd_def outsideBounds_def
      insideRect_def getElectrolyteBounds_def hasWaitingElectron_def beakerRect_def
      cathodeRect_def)

lemma map_waiting_all:
  "\<forall>p \<in> set (map (\<lambda>p. if pid p = i then p\<lparr>status := Waiting\<rparr> else p) xs).
     pid p = i \<longrightarrow> status p = Waiting"
proof -
  have "list_all (\<lambda>p. pid p = i \<longrightarrow> status p = Waiting)
          (map (\<lambda>p. if pid p = i then p\<lparr>status := Waiting\<rparr> else p) xs)"
    by (induction xs) simp_all
  then show ?thesis
    by (simp only: list_all_iff)
qed

lemma map_waiting_mem:
  "ion \<in> set xs \<Longrightarrow> pid ion = i \<Longrightarrow>
     ion\<lparr>status := Waiting\<rparr>
       \<in> set (map (\<lambda>p. if pid p = i then p\<lparr>status := Waiting\<rparr> else p) xs)"
proof (induction xs)
  case Nil
  then show ?case by simp
next
  case (Cons a xs)
  show ?case
  proof (cases "ion = a")
    case True
    then show ?thesis
      using Cons.prems(2) by simp
  next
    case False
    then have "ion \<in> set xs"
      using Cons.prems(1) by simp
    from Cons.IH [OF this Cons.prems(2)] show ?thesis
      by (simp del: set_map)
  qed
qed

text \<open>
  C7, amended. A drop outside the electrolyte bounds is rejected: the reset key is
  bumped and nothing else changes. A drop that is not outside the bounds and lies in
  the cathode's rectangle makes every ion with the given id waiting when an electron
  is waiting, and is rejected with no change of state when none is.
\<close>

theorem ion_drop_cases:
  "(outsideBounds (getElectrolyteBounds beaker) dropPoint \<longrightarrow>
      handleIonDragEnd cathode beaker i dropPoint s
        = ([Sound PlayError, Toast StayInSolution], s\<lparr>ionResetKey := ionResetKey s + 1\<rparr>))
   \<and> (\<not> outsideBounds (getElectrolyteBounds beaker) dropPoint \<and> insideRect cathode dropPoint
        \<and> hasWaitingElectron s \<longrightarrow>
        handleIonDragEnd cathode beaker i dropPoint s
          = ([Sound PlaySuccess],
             s\<lparr>ions := map (\<lambda>p. if pid p = i then p\<lparr>status := Waiting\<rparr> else p) (ions s)\<rparr>)
        \<and> (\<forall>p \<in> set (ions (snd (handleIonDragEnd cathode beaker i dropPoint s))).
              pid p = i \<longrightarrow> status p = Waiting)
        \<and> (ion \<in> set (ions s) \<and> pid ion = i \<longrightarrow>
              ion\<lparr>status := Waiting\<rparr>
                \<in> set (ions (snd (handleIonDragEnd cathode beaker i dropPoint s)))))
   \<and> (\<not> outsideBounds (getElectrolyteBounds beaker) dropPoint \<and> insideRect cathode dropPoint
        \<and> \<not> hasWaitingElectron s \<longrightarrow>
        handleIonDragEnd cathode beaker i dropPoint s
          = ([Sound PlayError, Toast WaitForElectron], s))"
proof (intro conjI impI)
  assume h: "\<not> outsideBounds (getElectrolyteBounds beaker) dropPoint \<and> insideRect cathode dropPoint
        \<and> hasWaitingElectron s"
  then show res: "handleIonDragEnd cathode beaker i dropPoint s
          = ([Sound PlaySuccess],
             s\<lparr>ions := map (\<lambda>p. if pid p = i then p\<lparr>status := Waiting\<rparr> else p) (ions s)\<rparr>)"
    by (simp add: handleIonDragEnd_def)
  have ions_res: "ions (snd (handleIonDragEnd cathode beaker i dropPoint s))
                    = map (\<lambda>p. if pid p = i then p\<lparr>status := Waiting\<rparr> else p) (ions s)"
    by (simp add: res)
  show "\<forall>p \<in> set (ions (snd (handleIonDragEnd cathode beaker i dropPoint s))).
              pid p = i \<longrightarrow> status p = Waiting"
    unfolding ions_res by (rule map_waiting_all)
  show "ion\<lparr>status := Waiting\<rparr>
          \<in> set (ions (snd (handleIonDragEnd cathode beaker i dropPoint s)))"
    if "ion \<in> set (ions s) \<and> pid ion = i"
    unfolding ions_res using that map_waiting_mem by blast
next
  assume "outsideBounds (getElectrolyteBounds beaker) dropPoint"
  then show "handleIonDragEnd cathode beaker i dropPoint s
        = ([Sound PlayError, Toast StayInSolution], s\<lparr>ionResetKey := ionResetKey s + 1\<rparr>)"
    unfolding handleIonDragEnd_def by (simp only: if_True)
next
  assume "\<not> outsideBounds (getElectrolyteBounds beaker) dropPoint \<and> insideRect cathode dropPoint
        \<and> \<not> hasWaitingElectron s"
  then show "handleIonDragEnd cathode beaker i dropPoint s
          = ([Sound PlayError, Toast WaitForElectron], s)"
    unfolding handleIonDragEnd_def by simp
qed

theorem ion_drop_cases_witness:
  "outsideBounds (getElectrolyteBounds (Some beakerRect)) (768, 240)
   \<and> handleIonDragEnd (Some cathodeRect) (Some beakerRect) ''ion-1'' (768, 240) afterArrival
       = ([Sound PlayError, Toast StayInSolution],
          afterArrival\<lparr>ionResetKey := ionResetKey afterArrival + 1\<rparr>)
   \<and> \<not> outsideBounds (getElectrolyteBounds (Some beakerRect)) (768, 300)
   \<and> insideRect (Some cathodeRect) (768, 300)
   \<and> hasWaitingElectron afterArrival
   \<and> handleIonDragEnd (Some cathodeRect) (Some beakerRect) ''ion-1'' (768, 300) afterArrival
       = ([Sound PlaySuccess],
          afterArrival\<lparr>ions := map (\<lambda>p. if pid p = ''ion-1'' then p\<lparr>status := Waiting\<rparr> else p)
                                    (ions afterArrival)\<rparr>)
   \<and> \<not> hasWaitingElectron afterCathodeDrag
   \<and> handleIonDragEnd (Some cathodeRect) (Some beakerRect) ''ion-1'' (768, 300) afterCathodeDrag
       = ([Sound PlayError, Toast WaitForElectron], afterCathodeDrag)"
proof -
  have out: "outsideBounds (getElectrolyteBounds (Some beakerRect)) (768, 240)"
    by (simp add: outsideBounds_def getElectrolyteBounds_def beakerRect_def)
  have inb: "\<not> outsideBounds (getElectrolyteBounds (Some beakerRect)) (768, 300)"
    by (simp add: outsideBounds_def getElectrolyteBounds_def beakerRect_def)
  have inc: "insideRect (Some cathodeRect) (768, 300)"
    by (simp add: insideRect_def cathodeRect_def)
  have w5: "hasWaitingElectron afterArrival"
    by (simp add: afterArrival_eq hasWaitingElectron_def)
  have w4: "\<not> hasWaitingElectron afterCathodeDrag"
    by (simp add: afterCathodeDrag_eq hasWaitingElectron_def)
  note c1 = ion_drop_cases [of "Some beakerRect" "(768, 240)" "Some cathodeRect" "''ion-1''"
      afterArrival, THEN conjunct1, THEN mp, OF out]
  note c2 = ion_drop_cases [of "Some beakerRect" "(768, 300)" "Some cathodeRect" "''ion-1''"
      afterArrival, THEN conjunct2, THEN conjunct1, THEN mp,
      OF conjI [OF inb conjI [OF inc w5]], THEN conjunct1]
  note c3 = ion_drop_cases [of "Some beakerRect" "(768, 300)" "Some cathodeRect" "''ion-1''"
      afterCathodeDrag, THEN conjunct2, THEN conjunct2, THEN mp,
      OF conjI [OF inb conjI [OF inc w4]]]
  show ?thesis
    by (intro conjI out inb inc w5 w4 c1 c2 c3)
qed

subsection \<open>Releasing a waiting electron again\<close>

lemma waiting_update_same:
  "status e = Waiting \<Longrightarrow> progress e = Some 1 \<Longrightarrow> e\<lparr>status := Waiting, progress := Some 1\<rparr> = e"
  by simp

text \<open>
  C8. A second release of an electron that waits is not always without effect: the
  release rewrites every electron that has the id. On the run \<open>waitingTwin\<close> two
  hand-offs have read the same clock value (the defect of C9), so two electrons have
  the id \<open>ce-5\<close>: the first waits at the cathode with progress 1, the second is active
  at progress 0. A press on the second and a release call \<open>handleElectronDragEnd\<close>
  with \<open>ce-5\<close> again; the electron found for the id is the waiting one, and the state
  after the call is not the state before it: the second electron has become waiting,
  with progress 1.
\<close>

theorem completeElectronDrag_again_changes_twin:
  "map summary (electrons (exec waitingTwin))
     = [(''ce-5'', Waiting, Some CathodeWire, Some 1),
        (''ce-5'', Active, Some CathodeWire, Some 0)]
   \<and> map summary (electrons (snd (handleElectronDragEnd ''ce-5'' 7 (exec waitingTwin))))
     = [(''ce-5'', Waiting, Some CathodeWire, Some 1),
        (''ce-5'', Waiting, Some CathodeWire, Some 1)]
   \<and> snd (handleElectronDragEnd ''ce-5'' 7 (exec waitingTwin)) \<noteq> exec waitingTwin
   \<and> map summary (electrons (exec (waitingTwin @ pressAndRelease)))
     = [(''ce-5'', Waiting, Some CathodeWire, Some 1),
        (''ce-5'', Waiting, Some CathodeWire, Some 1)]"
proof -
  have r: "snd (handleElectronDragEnd ''ce-5'' 7 (exec waitingTwin))
          = (snd (run pressAndRelease (exec waitingTwin)))"
    unfolding released_twins
    by (simp add: exec_waitingTwin stateAfter_def handler_defs layout_simps)
  have "map summary (electrons (snd (run pressAndRelease (exec waitingTwin))))
          \<noteq> map summary (electrons (exec waitingTwin))"
    unfolding released_twins
    by (simp add: exec_waitingTwin summary_def stateAfter_def)
  then have "snd (run pressAndRelease (exec waitingTwin)) \<noteq> exec waitingTwin"
    by auto
  then show ?thesis
    unfolding exec_append r released_twins
    by (simp add: exec_waitingTwin summary_def stateAfter_def)
qed

text \<open>
  When no other electron is touched, a second release changes nothing: if the electron
  found for the id is on the cathode wire and every electron with that id is waiting
  with progress 1 (with distinct ids: the electron is waiting), the release returns the
  state it was given. And two releases in a row of an electron that arrived on the
  cathode wire leave the state that the first one left.
\<close>

lemma completeElectronDrag_idempotent:
  "(find (\<lambda>e. pid e = i) (electrons s) = Some e \<and> segment e = Some CathodeWire
      \<and> (\<forall>e' \<in> set (electrons s). pid e' = i \<longrightarrow> status e' = Waiting \<and> progress e' = Some 1) \<longrightarrow>
      snd (handleElectronDragEnd i now s) = s)
   \<and> (find (\<lambda>e. pid e = i) (electrons s) = Some e \<and> segment e = Some CathodeWire
        \<and> toDouble 0.95 \<le> progressOr0 e \<longrightarrow>
        snd (handleElectronDragEnd i now' (snd (handleElectronDragEnd i now s)))
          = snd (handleElectronDragEnd i now s))"
proof (intro conjI impI)
  assume h: "find (\<lambda>e. pid e = i) (electrons s) = Some e \<and> segment e = Some CathodeWire
      \<and> (\<forall>e' \<in> set (electrons s). pid e' = i \<longrightarrow> status e' = Waiting \<and> progress e' = Some 1)"
  then have "e \<in> set (electrons s)" "pid e = i"
    using find_SomeD [of "\<lambda>e. pid e = i" "electrons s" e] by simp_all
  then have "progressOr0 e = 1"
    using h by (simp add: progressOr0_def)
  moreover have "map (\<lambda>e'. if pid e' = i then e'\<lparr>status := Waiting, progress := Some 1\<rparr> else e')
                   (electrons s) = electrons s"
    using h by (intro map_idI) (auto simp: waiting_update_same)
  ultimately show "snd (handleElectronDragEnd i now s) = s"
    using h threshold_facts(2) by (simp add: handleElectronDragEnd_def)
next
  let ?f = "\<lambda>e'. if pid e' = i then e'\<lparr>status := Waiting, progress := Some 1\<rparr> else e'"
  assume h: "find (\<lambda>e. pid e = i) (electrons s) = Some e \<and> segment e = Some CathodeWire
        \<and> toDouble 0.95 \<le> progressOr0 e"
  then have first: "snd (handleElectronDragEnd i now s) = s\<lparr>electrons := map ?f (electrons s)\<rparr>"
    by (simp add: handleElectronDragEnd_def)
  have found: "find (\<lambda>e. pid e = i) (map ?f xs) = map_option ?f (find (\<lambda>e. pid e = i) xs)"
    for xs
    by (induction xs) auto
  have again: "map ?f (map ?f xs) = map ?f xs" for xs
    by (induction xs) auto
  have "find (\<lambda>e. pid e = i) (map ?f (electrons s)) = Some (?f e)"
    using h by (simp add: found)
  moreover have "pid e = i"
    using find_SomeD [of "\<lambda>e. pid e = i" "electrons s" e] h by simp
  ultimately show "snd (handleElectronDragEnd i now' (snd (handleElectronDragEnd i now s)))
          = snd (handleElectronDragEnd i now s)"
    using h threshold_facts(2)
    by (simp add: first handleElectronDragEnd_def again)
qed

lemma completeElectronDrag_idempotent_example:
  "find (\<lambda>e. pid e = ''ce-1'') (electrons afterArrival)
     = Some \<lparr>pid = ''ce-1'', ptype = CathodeElectron, px = fst cathodeStop,
             py = snd cathodeStop, status = Waiting, segment = Some CathodeWire,
             progress = Some 1\<rparr>
   \<and> snd (handleElectronDragEnd ''ce-1'' 2 afterArrival) = afterArrival"
proof -
  have f: "find (\<lambda>e. pid e = ''ce-1'') (electrons afterArrival)
     = Some \<lparr>pid = ''ce-1'', ptype = CathodeElectron, px = fst cathodeStop,
             py = snd cathodeStop, status = Waiting, segment = Some CathodeWire,
             progress = Some 1\<rparr>"
    by (simp add: afterArrival_eq)
  have h: "find (\<lambda>e. pid e = ''ce-1'') (electrons afterArrival)
     = Some \<lparr>pid = ''ce-1'', ptype = CathodeElectron, px = fst cathodeStop,
             py = snd cathodeStop, status = Waiting, segment = Some CathodeWire,
             progress = Some 1\<rparr>
     \<and> segment \<lparr>pid = ''ce-1'', ptype = CathodeElectron, px = fst cathodeStop,
             py = snd cathodeStop, status = Waiting, segment = Some CathodeWire,
             progress = Some (1::real)\<rparr> = Some CathodeWire
     \<and> (\<forall>e' \<in> set (electrons afterArrival).
            pid e' = ''ce-1'' \<longrightarrow> status e' = Waiting \<and> progress e' = Some 1)"
    using f by (simp add: afterArrival_eq)
  from completeElectronDrag_idempotent [THEN conjunct1, THEN mp, OF h] f show ?thesis
    by simp
qed

subsection \<open>The cap on active particles\<close>

text \<open>
  C1. The guard of \<open>spawnIon\<close> rejects a spawn when 5 or more particles are active,
  with no change of state (\<open>spawn_at_cap_rejected\<close>, \<open>spawn_at_cap_signal\<close>), but a
  spawn adds two particles, so a spawn at 4 active particles gives 6: three spawns in a
  row from the connected initial state. No reachable state has more than 6
  (\<open>active_at_most_six\<close>).
\<close>

theorem active_cap_exceeded:
  "activeParticles (exec (prepare @ [SpawnIon 1 1, SpawnIon 2 2])) = 4
   \<and> fst (step (SpawnIon 3 3) (exec (prepare @ [SpawnIon 1 1, SpawnIon 2 2]))) = [Sound PlayPop]
   \<and> activeParticles (exec (prepare @ [SpawnIon 1 1, SpawnIon 2 2, SpawnIon 3 3])) = 6"
  by (simp add: exec_append exec_prepare stateAfter_def handler_defs path_facts decimal.simps)

lemma spawn_at_cap_rejected:
  "5 \<le> activeParticles s \<Longrightarrow> snd (spawnIon now1 now2 s) = s"
  by (simp add: spawnIon_def)

lemma spawn_at_cap_signal:
  "5 \<le> activeParticles s \<Longrightarrow> isAnodeConnected s \<Longrightarrow> isCathodeConnected s \<Longrightarrow>
     10 < anodeMass s \<Longrightarrow> spawnIon now1 now2 s = ([Sound PlayError, Toast TooManyParticles], s)"
  by (simp add: spawnIon_def)

lemma active_at_most_six: "activeParticles (exec evs) \<le> 6"
  using wellFormed_exec [of evs] by (simp add: wellFormed_def)

subsection \<open>The complete signal\<close>

text \<open>
  C2, as stated, fails: nothing guards the signal once it has fired. Six cycles reach
  the goal and fire it once; after the dialog is closed a seventh cycle plates again,
  and its batch fires the signal a second time and opens the dialog again.
\<close>

theorem complete_signal_fires_again_counterexample:
  "platedCount (exec goalReached) = 6
   \<and> count_list (feedbackOf goalReached) (Sound PlayWin) = 1
   \<and> showSuccess (exec dialogClosed) = False
   \<and> platedCount (exec seventhPlated) = 7
   \<and> showSuccess (exec seventhPlated) = True
   \<and> count_list (feedbackOf seventhPlated) (Sound PlayWin) = 2"
proof -
  have b: "count_list (feedbackOf goalReached) (Sound PlayWin) = 1"
    by (simp add: goalReached_def wins_cycles)
  then have f: "count_list (feedbackOf seventhPlated) (Sound PlayWin) = 2"
    by (simp add: feedback_seventhPlated cycleFeedback_def)
  show ?thesis
    using b f
    by (simp add: exec_goalReached exec_dialogClosed exec_seventhPlated stateAfter_def)
qed

lemma handle_no_win: "Sound PlayWin \<notin> set (fst (handle ev s))"
  by (cases ev)
     (auto simp: spawnIon_def handleIonDragEnd_def handleElectronPointerDown_def
        handleSvgPointerMove_def handleSvgPointerUp_def handleSvgMouseLeave_def
        handleElectronDragEnd_def resetGame_def Let_def split: option.splits)

text \<open>
  C2, amended. A pairing batch emits the complete signal (\<open>playWin\<close>, and
  \<open>showSuccess\<close> set) exactly when the plated count it leaves is at least the goal of
  6, at most once per batch, and no handler emits it: it fires on the batch that reaches
  the goal and on every batch after it.
\<close>

theorem complete_signal_every_batch:
  "(Sound PlayWin \<in> set (fst (pairingEffect s))
      \<longleftrightarrow> 0 < pairs s \<and> TOTAL_PLATING_GOAL \<le> platedCount s + int (pairs s))
   \<and> count_list (fst (pairingEffect s)) (Sound PlayWin) \<le> 1
   \<and> (0 < pairs s \<and> TOTAL_PLATING_GOAL \<le> platedCount s + int (pairs s) \<longrightarrow>
        showSuccess (snd (pairingEffect s))
        \<and> platedCount (snd (pairingEffect s)) = platedCount s + int (pairs s))
   \<and> Sound PlayWin \<notin> set (fst (handle ev s))
   \<and> TOTAL_PLATING_GOAL = 6"
  by (auto simp: pairingEffect_def Let_def pairs_def handle_no_win TOTAL_PLATING_GOAL_def)

theorem complete_signal_every_batch_witness:
  "0 < pairs (arrived 6 7)
   \<and> platedCount (arrived 6 7) = 6
   \<and> TOTAL_PLATING_GOAL \<le> platedCount (arrived 6 7) + int (pairs (arrived 6 7))
   \<and> Sound PlayWin \<in> set (fst (pairingEffect (arrived 6 7)))
   \<and> showSuccess (snd (pairingEffect (arrived 6 7)))
   \<and> platedCount (snd (pairingEffect (arrived 6 7))) = 7"
proof -
  have p: "pairs (arrived 6 7) = 1"
    by (simp add: arrived_pairs)
  have c: "platedCount (arrived 6 7) = 6"
    by (simp add: arrived_eq stateAfter_def)
  have h: "0 < pairs (arrived 6 7)
           \<and> TOTAL_PLATING_GOAL \<le> platedCount (arrived 6 7) + int (pairs (arrived 6 7))"
    by (simp add: p c TOTAL_PLATING_GOAL_def)
  note t = complete_signal_every_batch [of "arrived 6 7" ResetGame]
  have w: "Sound PlayWin \<in> set (fst (pairingEffect (arrived 6 7)))"
    using t [THEN conjunct1] h by blast
  have r: "showSuccess (snd (pairingEffect (arrived 6 7)))
        \<and> platedCount (snd (pairingEffect (arrived 6 7)))
            = platedCount (arrived 6 7) + int (pairs (arrived 6 7))"
    using t [THEN conjunct2, THEN conjunct2, THEN conjunct1, THEN mp, OF h] .
  have "platedCount (snd (pairingEffect (arrived 6 7))) = 7"
    using r by (simp add: p c)
  then show ?thesis
    using h w r c by blast
qed

subsection \<open>The pairing batch\<close>

text \<open>
  C3. The batch removes by id, not by position: the effect deletes every particle whose
  id is among the ids of the first \<open>pairs\<close> waiting ones. On the run of C9, in which two
  spawns read the same clock value and give two ions the id \<open>ion-1\<close>, one drop makes both
  ions waiting, one electron waits, the batch is of one pair, and both ions are removed
  where the first waiting one alone should be. (The parts of the claim that do not
  depend on ids hold in every state, and the removal is the positional one when ids are
  distinct: \<open>pairing_batch\<close> below.)
\<close>

theorem pairing_removes_both_ions:
  "map pid (ions (snd (handle dropIon1 (exec collision)))) = [''ion-1'', ''ion-1'']
   \<and> length (waitingIons (snd (handle dropIon1 (exec collision)))) = 2
   \<and> length (waitingElectrons (snd (handle dropIon1 (exec collision)))) = 1
   \<and> pairs (snd (handle dropIon1 (exec collision))) = 1
   \<and> length (removeFirstWaiting (pairs (snd (handle dropIon1 (exec collision))))
               (ions (snd (handle dropIon1 (exec collision))))) = 1
   \<and> ions (snd (pairingEffect (snd (handle dropIon1 (exec collision))))) = []"
proof -
  have removed: "ions (snd (pairingEffect (snd (handle dropIon1 (exec collision))))) = []"
    by (simp add: pairing_dropIon1 stateAfter_def)
  have before: "map pid (ions (snd (handle dropIon1 (exec collision)))) = [''ion-1'', ''ion-1'']
   \<and> length (waitingIons (snd (handle dropIon1 (exec collision)))) = 2
   \<and> length (waitingElectrons (snd (handle dropIon1 (exec collision)))) = 1
   \<and> pairs (snd (handle dropIon1 (exec collision))) = 1
   \<and> length (removeFirstWaiting (pairs (snd (handle dropIon1 (exec collision))))
               (ions (snd (handle dropIon1 (exec collision))))) = 1"
    by (simp add: handle_dropIon1 stateAfter_def pairs_def waitingIons_def waitingElectrons_def)
  show ?thesis
    using before removed by blast
qed

text \<open>
  What holds of the pairing effect in every state: after it (and so after every event)
  no pair is left waiting; the effect run again changes nothing; the cathode mass has
  grown by 5 per pair and the plated count by 1 per pair, with the anode mass as it
  was. When the ions' ids are pairwise distinct the ions left are the registry's without
  its first \<open>pairs\<close> waiting ions, in the order of the list (the order of insertion),
  and likewise for the electrons.
\<close>

lemma pairing_batch:
  "min (length (waitingIons (snd (pairingEffect s))))
       (length (waitingElectrons (snd (pairingEffect s)))) = 0
   \<and> min (length (waitingIons (snd (step ev s)))) (length (waitingElectrons (snd (step ev s)))) = 0
   \<and> pairingEffect (snd (pairingEffect s)) = ([], snd (pairingEffect s))
   \<and> cathodeMass (snd (pairingEffect s)) = cathodeMass s + 5 * int (pairs s)
   \<and> platedCount (snd (pairingEffect s)) = platedCount s + int (pairs s)
   \<and> anodeMass (snd (pairingEffect s)) = anodeMass s
   \<and> (distinct (map pid (ions s)) \<longrightarrow>
        ions (snd (pairingEffect s)) = removeFirstWaiting (pairs s) (ions s))
   \<and> (distinct (map pid (electrons s)) \<longrightarrow>
        electrons (snd (pairingEffect s)) = removeFirstWaiting (pairs s) (electrons s))"
proof (intro conjI impI)
  show "min (length (waitingIons (snd (pairingEffect s))))
       (length (waitingElectrons (snd (pairingEffect s)))) = 0"
    using pairingEffect_exhaustive [of s] by (simp only: pairs_def)
  show "min (length (waitingIons (snd (step ev s)))) (length (waitingElectrons (snd (step ev s)))) = 0"
    using step_exhaustive [of ev s] by (simp only: pairs_def)
  show "pairingEffect (snd (pairingEffect s)) = ([], snd (pairingEffect s))"
    by (rule pairingEffect_stable)
  show "cathodeMass (snd (pairingEffect s)) = cathodeMass s + 5 * int (pairs s)"
    by (simp add: pairingEffect_fields MASS_PER_UNIT_def)
  show "platedCount (snd (pairingEffect s)) = platedCount s + int (pairs s)"
    by (simp add: pairingEffect_fields)
  show "anodeMass (snd (pairingEffect s)) = anodeMass s"
    by (simp add: pairingEffect_fields)
  show "ions (snd (pairingEffect s)) = removeFirstWaiting (pairs s) (ions s)"
    if "distinct (map pid (ions s))"
    using filter_used_exact [OF that, of "pairs s"]
    by (simp only: pairingEffect_fields waitingIons_def)
  show "electrons (snd (pairingEffect s)) = removeFirstWaiting (pairs s) (electrons s)"
    if "distinct (map pid (electrons s))"
    using filter_used_exact [OF that, of "pairs s"]
    by (simp only: pairingEffect_fields waitingElectrons_def)
qed

lemma pairing_batch_example:
  "distinct (map pid (ions (arrived 0 1)))
   \<and> distinct (map pid (electrons (arrived 0 1)))
   \<and> pairs (arrived 0 1) = 1
   \<and> ions (arrived 0 1) = [(newIon 1)\<lparr>status := Waiting\<rparr>]
   \<and> ions (snd (pairingEffect (arrived 0 1)))
       = removeFirstWaiting (pairs (arrived 0 1)) (ions (arrived 0 1))
   \<and> electrons (snd (pairingEffect (arrived 0 1)))
       = removeFirstWaiting (pairs (arrived 0 1)) (electrons (arrived 0 1))
   \<and> removeFirstWaiting (pairs (arrived 0 1)) (ions (arrived 0 1)) = []
   \<and> cathodeMass (snd (pairingEffect (arrived 0 1)))
       = cathodeMass (arrived 0 1) + 5 * int (pairs (arrived 0 1))
   \<and> platedCount (snd (pairingEffect (arrived 0 1)))
       = platedCount (arrived 0 1) + int (pairs (arrived 0 1))"
proof -
  have d1: "distinct (map pid (ions (arrived 0 1)))"
    and d2: "distinct (map pid (electrons (arrived 0 1)))"
    and i: "ions (arrived 0 1) = [(newIon 1)\<lparr>status := Waiting\<rparr>]"
    by (simp_all add: arrived_eq)
  have p: "pairs (arrived 0 1) = 1"
    by (simp add: arrived_pairs)
  have e: "removeFirstWaiting (pairs (arrived 0 1)) (ions (arrived 0 1)) = []"
    unfolding p i by simp
  note t = pairing_batch [of "arrived 0 1" ResetGame]
  note c = t [THEN conjunct2, THEN conjunct2, THEN conjunct2, THEN conjunct1]
  note n = t [THEN conjunct2, THEN conjunct2, THEN conjunct2, THEN conjunct2, THEN conjunct1]
  note ri = t [THEN conjunct2, THEN conjunct2, THEN conjunct2, THEN conjunct2, THEN conjunct2,
      THEN conjunct2, THEN conjunct1, THEN mp, OF d1]
  note re = t [THEN conjunct2, THEN conjunct2, THEN conjunct2, THEN conjunct2, THEN conjunct2,
      THEN conjunct2, THEN conjunct2, THEN mp, OF d2]
  show ?thesis
    by (intro conjI d1 d2 p i ri re e c n)
qed

subsection \<open>Identity of particles\<close>

text \<open>
  C9. Ids are a prefix and the clock's reading, so two spawns that read the same
  value give two live ions (and two live electrons) the same id.
\<close>

theorem timestamp_ids_collide:
  "map pid (ions (exec (prepare @ [SpawnIon 1 1, SpawnIon 1 1]))) = [''ion-1'', ''ion-1'']
   \<and> map pid (electrons (exec (prepare @ [SpawnIon 1 1, SpawnIon 1 1]))) = [''ae-1'', ''ae-1'']
   \<and> \<not> distinct (map pid (ions (exec (prepare @ [SpawnIon 1 1, SpawnIon 1 1]))))"
  by (simp add: exec_append exec_prepare stateAfter_def handler_defs path_facts decimal.simps)

subsection \<open>Conservation of mass\<close>

text \<open>
  C10. The balance is lost on the run of C9 with two ions of one id: two spawns take
  10 from the anode, one drop makes both ions waiting, and the batch of one pair removes
  both ions and credits the cathode with 5. The sum is then 40 + 30 + 0 = 70, not 75.
  (Along runs in which every spawn gives its ion an id that is new, the balance is
  kept: \<open>mass_conserved_with_fresh_ids\<close> below.)
\<close>

theorem mass_lost_on_shared_id:
  "anodeMass (exec (collision @ [dropIon1])) + cathodeMass (exec (collision @ [dropIon1]))
     + 5 * int (length (ions (exec (collision @ [dropIon1])))) = 70"
  by (simp add: exec_append step_snd pairing_dropIon1 stateAfter_def)

text \<open>
  In every state reached by a run in which each spawn gives its ion an id that no ion
  in the registry has, \<open>anodeMass + cathodeMass + 5 \<times> (number of ions)\<close> is 75 and the
  ions' ids are pairwise distinct; from a balanced state with distinct ion ids, every
  event's handler and the pairing effect after it keep the balance.
\<close>

lemma mass_conserved_with_fresh_ids:
  "(freshRun evs initialState \<longrightarrow>
      anodeMass (exec evs) + cathodeMass (exec evs) + 5 * int (length (ions (exec evs))) = 75
      \<and> distinct (map pid (ions (exec evs))))
   \<and> (massBalance s \<and> distinct (map pid (ions s)) \<and> freshSpawn ev s \<longrightarrow>
        massBalance (snd (handle ev s)) \<and> massBalance (snd (step ev s)))"
proof (intro conjI impI)
  assume fr: "freshRun evs initialState"
  have init: "massBalance initialState" "distinct (map pid (ions initialState))"
    by (simp_all add: massBalance_def initialState_def)
  have "massBalance (exec evs) \<and> distinct (map pid (ions (exec evs)))"
    using balanced_run [OF fr init] by (simp only: exec_def)
  then show "anodeMass (exec evs) + cathodeMass (exec evs) + 5 * int (length (ions (exec evs))) = 75"
    and "distinct (map pid (ions (exec evs)))"
    by (simp_all add: massBalance_def MASS_PER_UNIT_def ANODE_START_MASS_def
        CATHODE_START_MASS_def)
next
  assume h: "massBalance s \<and> distinct (map pid (ions s)) \<and> freshSpawn ev s"
  then show "massBalance (snd (handle ev s))"
    using balanced_handle [of s ev] by simp
  from h show "massBalance (snd (step ev s))"
    using balanced_step [of s ev] by simp
qed

lemma mass_conserved_with_fresh_ids_example:
  "freshRun (prepare @ cycle 1) initialState
   \<and> anodeMass (exec (prepare @ cycle 1)) + cathodeMass (exec (prepare @ cycle 1))
       + 5 * int (length (ions (exec (prepare @ cycle 1)))) = 75
   \<and> massBalance (stateAfter 1) \<and> distinct (map pid (ions (stateAfter 1)))
   \<and> freshSpawn (SpawnIon 2 2) (stateAfter 1)
   \<and> massBalance (snd (handle (SpawnIon 2 2) (stateAfter 1)))
   \<and> massBalance (snd (step (SpawnIon 2 2) (stateAfter 1)))"
proof -
  have "snd (run prepare initialState) = stateAfter 0"
    using exec_prepare by (simp only: exec_def)
  then have fr: "freshRun (prepare @ cycle 1) initialState"
    by (simp only: freshRun_append freshRun_prepare freshRun_cycle [of 0 1] simp_thms)
  have h: "massBalance (stateAfter 1) \<and> distinct (map pid (ions (stateAfter 1)))
           \<and> freshSpawn (SpawnIon 2 2) (stateAfter 1)"
    by (simp add: massBalance_def stateAfter_def freshSpawn_def MASS_PER_UNIT_def
        ANODE_START_MASS_def CATHODE_START_MASS_def)
  note t = mass_conserved_with_fresh_ids [of "prepare @ cycle 1" "stateAfter 1" "SpawnIon 2 2"]
  note a = t [THEN conjunct1, THEN mp, OF fr, THEN conjunct1]
  note b = t [THEN conjunct2, THEN mp, OF h]
  show ?thesis
    using fr a h b by blast
qed

end
